theory Spec2Isabelle
  imports
    Main
    "HOL-Library.Sublist"
    "HOL-Library.AList"
    "HOL-Library.Multiset"
    "HOL-Library.Product_Lexorder"
begin

section \<open>JavaScript values and the JSON codec\<close>

text \<open>
  The request bodies, the response bodies and the values of the settings object are
  JavaScript values. Numbers are modelled as integers (the integers a double holds
  exactly print in plain decimal); strings are lists of 8-bit characters; an object is
  the list of its own enumerable properties in enumeration order.
\<close>

datatype jsval =
    JUndefined
  | JNull
  | JBool bool
  | JNum int
  | JStr string
  | JArr "jsval list"
  | JObj "(string \<times> jsval) list"

definition digit_char :: "nat \<Rightarrow> char" where
  "digit_char d = char_of (48 + d)"

fun digits_of_nat :: "nat \<Rightarrow> string" where
  "digits_of_nat n =
     (if n < 10 then [digit_char n] else digits_of_nat (n div 10) @ [digit_char (n mod 10)])"

declare digits_of_nat.simps [simp del]

definition number_to_string :: "int \<Rightarrow> string" where
  "number_to_string i =
     (if i < 0 then CHR ''-'' # digits_of_nat (nat (- i)) else digits_of_nat (nat i))"

definition hex_char :: "nat \<Rightarrow> char" where
  "hex_char d = (if d < 10 then char_of (48 + d) else char_of (87 + d))"

text \<open>
  \<^verbatim>\<open>JSON.stringify\<close> quotes a string and escapes the quotation mark, the backslash and
  the control characters below U+0020 (short forms for \<^verbatim>\<open>\b \t \n \f \r\<close>, lower-case
  \<^verbatim>\<open>\u00XX\<close> for the others).
\<close>

definition json_escape_char :: "char \<Rightarrow> string" where
  "json_escape_char c =
     (if c = CHR 0x22 then [CHR 0x5C, CHR 0x22]
      else if c = CHR 0x5C then [CHR 0x5C, CHR 0x5C]
      else if c = CHR 0x08 then [CHR 0x5C, CHR ''b'']
      else if c = CHR 0x09 then [CHR 0x5C, CHR ''t'']
      else if c = CHR 0x0A then [CHR 0x5C, CHR ''n'']
      else if c = CHR 0x0C then [CHR 0x5C, CHR ''f'']
      else if c = CHR 0x0D then [CHR 0x5C, CHR ''r'']
      else if (of_char c :: nat) < 32
        then [CHR 0x5C, CHR ''u'', CHR ''0'', CHR ''0'',
              hex_char (of_char c div 16), hex_char (of_char c mod 16)]
      else [c])"

definition json_quote :: "string \<Rightarrow> string" where
  "json_quote s = CHR 0x22 # concat (map json_escape_char s) @ [CHR 0x22]"

fun join_commas :: "string list \<Rightarrow> string" where
  "join_commas [] = []"
| "join_commas [x] = x"
| "join_commas (x # y # ys) = x @ CHR '','' # join_commas (y # ys)"

text \<open>
  \<^verbatim>\<open>JSON.stringify(value)\<close> for a value other than \<^verbatim>\<open>undefined\<close>. An \<^verbatim>\<open>undefined\<close>
  array element prints as \<^verbatim>\<open>null\<close>; a property whose value is \<^verbatim>\<open>undefined\<close> is left out.
\<close>

fun JSON_stringify :: "jsval \<Rightarrow> string"
  and stringify_elements :: "jsval list \<Rightarrow> string list"
  and stringify_members :: "(string \<times> jsval) list \<Rightarrow> string list" where
  "JSON_stringify JUndefined = ''null''"
| "JSON_stringify JNull = ''null''"
| "JSON_stringify (JBool b) = (if b then ''true'' else ''false'')"
| "JSON_stringify (JNum n) = number_to_string n"
| "JSON_stringify (JStr s) = json_quote s"
| "JSON_stringify (JArr xs) = CHR ''['' # join_commas (stringify_elements xs) @ '']''"
| "JSON_stringify (JObj kvs) = CHR ''{'' # join_commas (stringify_members kvs) @ ''}''"
| "stringify_elements [] = []"
| "stringify_elements (x # xs) = JSON_stringify x # stringify_elements xs"
| "stringify_members [] = []"
| "stringify_members ((k, v) # ms) =
     (if v = JUndefined then stringify_members ms
      else (json_quote k @ CHR '':'' # JSON_stringify v) # stringify_members ms)"

definition is_ws :: "char \<Rightarrow> bool" where
  "is_ws c = (c = CHR 0x20 \<or> c = CHR 0x09 \<or> c = CHR 0x0A \<or> c = CHR 0x0D)"

definition skip_ws :: "string \<Rightarrow> string" where
  "skip_ws s = dropWhile is_ws s"

definition is_digit :: "char \<Rightarrow> bool" where
  "is_digit c = (48 \<le> (of_char c :: nat) \<and> (of_char c :: nat) \<le> 57)"

definition digits_value :: "string \<Rightarrow> nat" where
  "digits_value ds = foldl (\<lambda>a c. 10 * a + (of_char c - 48)) 0 ds"

definition hex_val :: "char \<Rightarrow> nat option" where
  "hex_val c =
     (let n = (of_char c :: nat) in
      if 48 \<le> n \<and> n \<le> 57 then Some (n - 48)
      else if 97 \<le> n \<and> n \<le> 102 then Some (n - 87)
      else if 65 \<le> n \<and> n \<le> 70 then Some (n - 55)
      else None)"

definition hex4 :: "char \<Rightarrow> char \<Rightarrow> char \<Rightarrow> char \<Rightarrow> nat option" where
  "hex4 a b c d =
     (case (hex_val a, hex_val b, hex_val c, hex_val d) of
        (Some x, Some y, Some z, Some w) \<Rightarrow> Some (((x * 16 + y) * 16 + z) * 16 + w)
      | _ \<Rightarrow> None)"

definition unescape :: "char \<Rightarrow> char option" where
  "unescape e =
     (if e = CHR 0x22 then Some (CHR 0x22)
      else if e = CHR 0x5C then Some (CHR 0x5C)
      else if e = CHR ''/'' then Some (CHR ''/'')
      else if e = CHR ''b'' then Some (CHR 0x08)
      else if e = CHR ''f'' then Some (CHR 0x0C)
      else if e = CHR ''n'' then Some (CHR 0x0A)
      else if e = CHR ''r'' then Some (CHR 0x0D)
      else if e = CHR ''t'' then Some (CHR 0x09)
      else None)"

text \<open>
  The characters of a JSON string after its opening quotation mark, up to the closing
  one. An escape \<^verbatim>\<open>\uXXXX\<close> above U+00FF has no 8-bit character and is refused.
\<close>

fun parse_chars :: "string \<Rightarrow> (string \<times> string) option" where
  "parse_chars [] = None"
| "parse_chars (c # cs) =
     (if c = CHR 0x22 then Some ([], cs)
      else if c = CHR 0x5C then
        (case cs of
           [] \<Rightarrow> None
         | e # es \<Rightarrow>
             if e = CHR ''u'' then
               (case es of
                  a # b # c' # d # r \<Rightarrow>
                    (case hex4 a b c' d of
                       None \<Rightarrow> None
                     | Some n \<Rightarrow>
                         if n < 256 then
                           (case parse_chars r of
                              None \<Rightarrow> None
                            | Some (str, r') \<Rightarrow> Some (char_of n # str, r'))
                         else None)
                | _ \<Rightarrow> None)
             else
               (case unescape e of
                  None \<Rightarrow> None
                | Some ch \<Rightarrow>
                    (case parse_chars es of
                       None \<Rightarrow> None
                     | Some (str, r') \<Rightarrow> Some (ch # str, r'))))
      else if (of_char c :: nat) < 32 then None
      else
        (case parse_chars cs of
           None \<Rightarrow> None
         | Some (str, r') \<Rightarrow> Some (c # str, r')))"

text \<open>
  An integer literal: an optional minus sign, then \<^verbatim>\<open>0\<close> or a digit string without a
  leading zero. A fraction or an exponent denotes a number outside the integer model
  and is refused.
\<close>

definition parse_number :: "string \<Rightarrow> (jsval \<times> string) option" where
  "parse_number s =
     (let neg = (case s of [] \<Rightarrow> False | c # _ \<Rightarrow> c = CHR ''-'');
          t = (if neg then tl s else s);
          ds = takeWhile is_digit t;
          r = dropWhile is_digit t
      in if ds = [] then None
         else if 1 < length ds \<and> take 1 ds = ''0'' then None
         else if take 1 r = ''.'' \<or> take 1 r = ''e'' \<or> take 1 r = ''E'' then None
         else Some (JNum (if neg then - int (digits_value ds) else int (digits_value ds)), r))"

text \<open>
  The object a member list denotes: a repeated name keeps its first position and takes
  the last value.
\<close>

definition object_of :: "(string \<times> jsval) list \<Rightarrow> (string \<times> jsval) list" where
  "object_of ms = foldl (\<lambda>obj kv. AList.update (fst kv) (snd kv) obj) [] ms"

text \<open>
  The recursive-descent parser, with the nesting bounded by a fuel argument. Every
  second call consumes at least one character, so \<open>2 * length s + 2\<close> never runs out.
\<close>

fun parse_value :: "nat \<Rightarrow> string \<Rightarrow> (jsval \<times> string) option"
  and parse_elements :: "nat \<Rightarrow> string \<Rightarrow> (jsval list \<times> string) option"
  and parse_members :: "nat \<Rightarrow> string \<Rightarrow> ((string \<times> jsval) list \<times> string) option" where
  "parse_value 0 s = None"
| "parse_value (Suc n) s =
     (case skip_ws s of
        [] \<Rightarrow> None
      | c # cs \<Rightarrow>
          if c = CHR ''{'' then
            (case skip_ws cs of
               [] \<Rightarrow> None
             | d # r \<Rightarrow>
                 if d = CHR ''}'' then Some (JObj [], r)
                 else (case parse_members n cs of
                         None \<Rightarrow> None
                       | Some (ms, r') \<Rightarrow> Some (JObj (object_of ms), r')))
          else if c = CHR ''['' then
            (case skip_ws cs of
               [] \<Rightarrow> None
             | d # r \<Rightarrow>
                 if d = CHR '']'' then Some (JArr [], r)
                 else (case parse_elements n cs of
                         None \<Rightarrow> None
                       | Some (vs, r') \<Rightarrow> Some (JArr vs, r')))
          else if c = CHR 0x22 then
            (case parse_chars cs of
               None \<Rightarrow> None
             | Some (str, r) \<Rightarrow> Some (JStr str, r))
          else if c = CHR ''-'' \<or> is_digit c then parse_number (c # cs)
          else if prefix ''true'' (c # cs) then Some (JBool True, drop 4 (c # cs))
          else if prefix ''false'' (c # cs) then Some (JBool False, drop 5 (c # cs))
          else if prefix ''null'' (c # cs) then Some (JNull, drop 4 (c # cs))
          else None)"
| "parse_elements 0 s = None"
| "parse_elements (Suc n) s =
     (case parse_value n s of
        None \<Rightarrow> None
      | Some (v, r) \<Rightarrow>
          (case skip_ws r of
             [] \<Rightarrow> None
           | c # r' \<Rightarrow>
               if c = CHR '','' then
                 (case parse_elements n r' of
                    None \<Rightarrow> None
                  | Some (vs, r'') \<Rightarrow> Some (v # vs, r''))
               else if c = CHR '']'' then Some ([v], r')
               else None))"
| "parse_members 0 s = None"
| "parse_members (Suc n) s =
     (case skip_ws s of
        [] \<Rightarrow> None
      | q # s1 \<Rightarrow>
          if q \<noteq> CHR 0x22 then None
          else
            (case parse_chars s1 of
               None \<Rightarrow> None
             | Some (k, s2) \<Rightarrow>
                 (case skip_ws s2 of
                    [] \<Rightarrow> None
                  | col # s3 \<Rightarrow>
                      if col \<noteq> CHR '':'' then None
                      else
                        (case parse_value n s3 of
                           None \<Rightarrow> None
                         | Some (v, s4) \<Rightarrow>
                             (case skip_ws s4 of
                                [] \<Rightarrow> None
                              | c # s5 \<Rightarrow>
                                  if c = CHR '','' then
                                    (case parse_members n s5 of
                                       None \<Rightarrow> None
                                     | Some (ms, s6) \<Rightarrow> Some ((k, v) # ms, s6))
                                  else if c = CHR ''}'' then Some ([(k, v)], s5)
                                  else None)))))"

text \<open>\<^verbatim>\<open>JSON.parse(text)\<close>: \<open>None\<close> stands for the \<^verbatim>\<open>SyntaxError\<close> it throws.\<close>

definition JSON_parse :: "string \<Rightarrow> jsval option" where
  "JSON_parse s =
     (case parse_value (2 * length s + 2) s of
        None \<Rightarrow> None
      | Some (v, r) \<Rightarrow> if skip_ws r = [] then Some v else None)"


text \<open>The text that may follow a value inside an array or an object, or end the input.\<close>

definition delim :: "string \<Rightarrow> bool" where
  "delim r = (case r of [] \<Rightarrow> True | c # _ \<Rightarrow> c = CHR '','' \<or> c = CHR '']'' \<or> c = CHR ''}'')"

subsection \<open>Truthiness, \<^verbatim>\<open>typeof\<close>, \<^verbatim>\<open>String\<close>, \<^verbatim>\<open>Object.entries\<close>, \<^verbatim>\<open>parseInt\<close>\<close>

definition truthy :: "jsval \<Rightarrow> bool" where
  "truthy v =
     (case v of
        JUndefined \<Rightarrow> False
      | JNull \<Rightarrow> False
      | JBool b \<Rightarrow> b
      | JNum n \<Rightarrow> n \<noteq> 0
      | JStr s \<Rightarrow> s \<noteq> []
      | JArr _ \<Rightarrow> True
      | JObj _ \<Rightarrow> True)"

text \<open>\<^verbatim>\<open>typeof v === 'object'\<close> holds of objects, arrays and \<^verbatim>\<open>null\<close>.\<close>

definition typeof_object :: "jsval \<Rightarrow> bool" where
  "typeof_object v =
     (case v of JNull \<Rightarrow> True | JArr _ \<Rightarrow> True | JObj _ \<Rightarrow> True | _ \<Rightarrow> False)"

text \<open>
  \<^verbatim>\<open>String(v)\<close>, also the conversion of a template literal. An array joins its elements
  with commas, \<^verbatim>\<open>null\<close> and \<^verbatim>\<open>undefined\<close> elements as the empty string; a plain object
  prints as \<^verbatim>\<open>[object Object]\<close>.
\<close>

fun js_to_string :: "jsval \<Rightarrow> string" where
  "js_to_string JUndefined = ''undefined''"
| "js_to_string JNull = ''null''"
| "js_to_string (JBool b) = (if b then ''true'' else ''false'')"
| "js_to_string (JNum n) = number_to_string n"
| "js_to_string (JStr s) = s"
| "js_to_string (JArr xs) =
     join_commas (map (\<lambda>x. if x = JUndefined \<or> x = JNull then [] else js_to_string x) xs)"
| "js_to_string (JObj kvs) = ''[object Object]''"

definition Object_entries :: "jsval \<Rightarrow> (string \<times> jsval) list" where
  "Object_entries v =
     (case v of
        JObj kvs \<Rightarrow> kvs
      | JArr xs \<Rightarrow> zip (map (\<lambda>i. number_to_string (int i)) [0 ..< length xs]) xs
      | _ \<Rightarrow> [])"

definition is_js_space :: "char \<Rightarrow> bool" where
  "is_js_space c =
     (c = CHR 0x09 \<or> c = CHR 0x0A \<or> c = CHR 0x0B \<or> c = CHR 0x0C \<or> c = CHR 0x0D
      \<or> c = CHR 0x20 \<or> c = CHR 0xA0)"

text \<open>
  \<^verbatim>\<open>parseInt(s, 10)\<close>: leading white space, an optional sign, then the longest run of
  decimal digits; \<open>None\<close> stands for \<^verbatim>\<open>NaN\<close>, the result when there is no digit.
\<close>

definition parseInt10 :: "string \<Rightarrow> int option" where
  "parseInt10 s =
     (let t = dropWhile is_js_space s;
          neg = (case t of [] \<Rightarrow> False | c # _ \<Rightarrow> c = CHR ''-'');
          u = (case t of [] \<Rightarrow> [] | c # r \<Rightarrow> if c = CHR ''-'' \<or> c = CHR ''+'' then r else t);
          ds = takeWhile is_digit u
      in if ds = [] then None
         else Some (if neg then - int (digits_value ds) else int (digits_value ds)))"

text \<open>
  \<^verbatim>\<open>encodeURIComponent\<close>: the unreserved characters stay, every other character is
  replaced by the percent-encoded bytes of its UTF-8 form (characters are the code
  points U+0000 to U+00FF here, so at most two bytes).
\<close>

definition uri_unreserved :: "char \<Rightarrow> bool" where
  "uri_unreserved c =
     (let n = (of_char c :: nat) in
      (65 \<le> n \<and> n \<le> 90) \<or> (97 \<le> n \<and> n \<le> 122) \<or> (48 \<le> n \<and> n \<le> 57)
      \<or> c \<in> set ''-_.!~*()'' \<or> c = CHR 0x27)"

definition upper_hex :: "nat \<Rightarrow> char" where
  "upper_hex d = (if d < 10 then char_of (48 + d) else char_of (55 + d))"

definition percent :: "nat \<Rightarrow> string" where
  "percent b = [CHR ''%'', upper_hex (b div 16), upper_hex (b mod 16)]"

definition encode_char :: "char \<Rightarrow> string" where
  "encode_char c =
     (let n = (of_char c :: nat) in
      if uri_unreserved c then [c]
      else if n < 128 then percent n
      else percent (192 + n div 64) @ percent (128 + n mod 64))"

definition encodeURIComponent :: "string \<Rightarrow> string" where
  "encodeURIComponent s = concat (map encode_char s)"

section \<open>The server state and its environment\<close>

text \<open>
  A row of \<^verbatim>\<open>carousel_images\<close>. The only \<^verbatim>\<open>INSERT\<close> of the server supplies a display
  order, so the column is an integer here.
\<close>

record carousel_image =
  image_id :: int
  image_url :: string
  link_url :: "string option"
  alt_text :: "string option"
  file_name :: "string option"
  display_order :: int

record session =
  sessionID :: string
  authenticated :: bool
  username :: "string option"

record js_error =
  err_status :: "int option"
  err_message :: string

record mail =
  mail_from :: string
  replyTo :: string
  mail_to :: string
  subject :: string
  text_body :: string
  html_body :: string

datatype db_call =
    Connect
  | Begin
  | Commit
  | Rollback
  | SelectSettings
  | UpsertSetting string string
  | SelectContactSettings
  | SelectCarousel
  | InsertCarousel string "string option" string string
  | SelectImageUrl int
  | DeleteCarousel int

datatype call =
    Db db_call
  | BlobPut string
  | BlobHead string
  | BlobDel string
  | SendMail mail
  | SessionDestroy string

text \<open>
  The state the server works on: the \<^verbatim>\<open>settings\<close> table (name and value; the value
  column is nullable), the \<^verbatim>\<open>carousel_images\<close> table with the last value of its id
  sequence, the URLs held by the blob store, the session store, and the log of the calls
  the server has made to the database, the blob store, the mailer and the session store.
\<close>

record world =
  settings :: "(string \<times> string option) list"
  carousel_images :: "carousel_image list"
  carousel_seq :: int
  blobs :: "string list"
  sessions :: "(string \<times> session) list"
  calls :: "call list"

text \<open>
  What the server does not control: which database calls fail, what the blob store
  answers (\<^verbatim>\<open>put\<close> is asked with the original file name; the stored name adds the time
  and a random token), whether the mailer and the session store fail, whether a mail
  transporter was configured at start-up, and the process environment.
\<close>

record environment =
  db_fault :: "db_call \<Rightarrow> js_error option"
  put_result :: "string \<Rightarrow> js_error + string"
  head_fault :: "string \<Rightarrow> js_error option"
  del_fault :: "string \<Rightarrow> js_error option"
  mail_fault :: "mail \<Rightarrow> js_error option"
  destroy_fault :: "string \<Rightarrow> js_error option"
  mailTransporter :: bool
  process_env :: "string \<Rightarrow> string option"

record upload =
  originalname :: string

record request =
  originalUrl :: string
  req_session :: "session option"
  body :: "(string \<times> jsval) list"
  params_id :: string
  req_file :: "upload option"

datatype response =
    Json nat jsval
  | JsonClearCookie string nat jsval
  | Redirect nat string
  | NoResponse

definition record_call :: "call \<Rightarrow> world \<Rightarrow> world" where
  "record_call c w = w\<lparr>calls := calls w @ [c]\<rparr>"

definition body_field :: "request \<Rightarrow> string \<Rightarrow> jsval" where
  "body_field req name = (case map_of (body req) name of None \<Rightarrow> JUndefined | Some v \<Rightarrow> v)"

text \<open>
  \<^verbatim>\<open>ROLLBACK\<close> in a \<^verbatim>\<open>catch\<close> block: the tables return to their state at \<^verbatim>\<open>BEGIN\<close>
  (the sequence and the blob store are not transactional). When \<^verbatim>\<open>ROLLBACK\<close> itself
  throws, the handler's promise rejects and no response is sent.
\<close>

definition rollback :: "environment \<Rightarrow> world \<Rightarrow> world \<Rightarrow> response \<Rightarrow> response \<times> world" where
  "rollback env w0 w resp =
     (let w1 = record_call (Db Rollback)
                 (w\<lparr>settings := settings w0, carousel_images := carousel_images w0\<rparr>)
      in case db_fault env Rollback of
           Some err \<Rightarrow> (NoResponse, w1)
         | None \<Rightarrow> (resp, w1))"

section \<open>Authentication\<close>

text \<open>\<^verbatim>\<open>req.session && req.session.authenticated\<close>.\<close>

definition is_authenticated :: "request \<Rightarrow> bool" where
  "is_authenticated req = (case req_session req of None \<Rightarrow> False | Some s \<Rightarrow> authenticated s)"

definition checkAuth :: "request \<Rightarrow> response option" where
  "checkAuth req =
     (if is_authenticated req then None
      else if prefix ''/api/'' (originalUrl req) then
        Some (Json 401 (JObj [(''error'', JStr ''Unauthorized. Please log in.''),
                              (''redirectTo'', JStr ''/login.html?unauthorized=true'')]))
      else Some (Redirect 302 ''/login.html?unauthorized=true''))"

text \<open>A route registered as \<^verbatim>\<open>app.post(path, checkAuth, handler)\<close>.\<close>

definition protected ::
  "(environment \<Rightarrow> request \<Rightarrow> world \<Rightarrow> response \<times> world) \<Rightarrow>
   environment \<Rightarrow> request \<Rightarrow> world \<Rightarrow> response \<times> world" where
  "protected handler env req w =
     (case checkAuth req of Some resp \<Rightarrow> (resp, w) | None \<Rightarrow> handler env req w)"

definition post_api_logout :: "environment \<Rightarrow> request \<Rightarrow> world \<Rightarrow> response \<times> world" where
  "post_api_logout env req w =
     (case req_session req of
        Some s \<Rightarrow>
          (let w1 = record_call (SessionDestroy (sessionID s)) w in
           case destroy_fault env (sessionID s) of
             Some err \<Rightarrow>
               (Json 500 (JObj [(''message'', JStr ''Logout failed due to server error.'')]), w1)
           | None \<Rightarrow>
               (JsonClearCookie ''connect.sid'' 200 (JObj [(''message'', JStr ''Logout successful'')]),
                w1\<lparr>sessions := filter (\<lambda>entry. fst entry \<noteq> sessionID s) (sessions w1)\<rparr>))
      | None \<Rightarrow>
          (Json 200 (JObj [(''message'', JStr ''No active session to log out from.'')]), w))"

section \<open>Settings\<close>

definition jsonKeys :: "string list" where
  "jsonKeys = [''socialLinks'', ''facilityCards'', ''heroGradient'', ''aboutGradient'',
               ''admissionsGradient'', ''academicsGradient'', ''facilitiesGradient'',
               ''contactGradient'']"

definition empty_default :: "string \<Rightarrow> jsval" where
  "empty_default name = (if name = ''facilityCards'' then JArr [] else JObj [])"

text \<open>
  The value \<^verbatim>\<open>GET /api/settings\<close> returns for one row: for a JSON key the parsed text,
  or the empty default when the stored value is falsy (\<^verbatim>\<open>NULL\<close> or empty) or
  \<^verbatim>\<open>JSON.parse\<close> throws; for any other key the stored value as it is.
\<close>

definition decode_setting :: "string \<Rightarrow> string option \<Rightarrow> jsval" where
  "decode_setting name value =
     (if name \<in> set jsonKeys then
        (case value of
           None \<Rightarrow> empty_default name
         | Some txt \<Rightarrow>
             if txt = [] then empty_default name
             else (case JSON_parse txt of
                     Some v \<Rightarrow> v
                   | None \<Rightarrow> empty_default name))
      else (case value of None \<Rightarrow> JNull | Some txt \<Rightarrow> JStr txt))"

text \<open>\<^verbatim>\<open>settings[row.setting_name] = value\<close> for every row, starting from the empty object.\<close>

definition settings_object :: "(string \<times> string option) list \<Rightarrow> (string \<times> jsval) list" where
  "settings_object rows =
     foldl (\<lambda>obj row. AList.update (fst row) (decode_setting (fst row) (snd row)) obj) [] rows"

definition get_api_settings :: "environment \<Rightarrow> request \<Rightarrow> world \<Rightarrow> response \<times> world" where
  "get_api_settings env req w =
     (let w1 = record_call (Db SelectSettings) w in
      case db_fault env SelectSettings of
        Some err \<Rightarrow>
          (Json 500 (JObj [(''error'', JStr ''Failed to retrieve settings from database.'')]), w1)
      | None \<Rightarrow> (Json 200 (JObj (settings_object (settings w1))), w1))"

definition valueToStore :: "jsval \<Rightarrow> string" where
  "valueToStore v =
     (if typeof_object v \<and> v \<noteq> JNull then JSON_stringify v
      else js_to_string (if truthy v then v else JStr []))"

text \<open>
  The loop over \<^verbatim>\<open>Object.entries(settings)\<close>: one upsert per entry, stopping at the
  first statement that throws. The upsert replaces the value of an existing name in
  place and appends a new name.
\<close>

fun upsert_entries ::
  "environment \<Rightarrow> (string \<times> jsval) list \<Rightarrow> world \<Rightarrow> js_error option \<times> world" where
  "upsert_entries env [] w = (None, w)"
| "upsert_entries env ((key, v) # rest) w =
     (let w1 = record_call (Db (UpsertSetting key (valueToStore v))) w in
      case db_fault env (UpsertSetting key (valueToStore v)) of
        Some err \<Rightarrow> (Some err, w1)
      | None \<Rightarrow>
          upsert_entries env rest
            (w1\<lparr>settings := AList.update key (Some (valueToStore v)) (settings w1)\<rparr>))"

text \<open>
  The table after the upserts of all entries, in order; and the well-formedness of a
  request object: its own property names are pairwise distinct.
\<close>

definition upsert_all ::
  "(string \<times> jsval) list \<Rightarrow> (string \<times> string option) list \<Rightarrow> (string \<times> string option) list" where
  "upsert_all es t =
     foldl (\<lambda>tbl kv. AList.update (fst kv) (Some (valueToStore (snd kv))) tbl) t es"

definition own_keys_distinct :: "jsval \<Rightarrow> bool" where
  "own_keys_distinct v = (case v of JObj kvs \<Rightarrow> distinct (map fst kvs) | _ \<Rightarrow> True)"

definition save_failed :: response where
  "save_failed = Json 500 (JObj [(''error'', JStr ''Failed to save settings.'')])"

definition post_api_settings :: "environment \<Rightarrow> request \<Rightarrow> world \<Rightarrow> response \<times> world" where
  "post_api_settings env req w =
     (let settings_in = body_field req ''settings'' in
      if \<not> truthy settings_in \<or> \<not> typeof_object settings_in then
        (Json 400 (JObj [(''error'',
           JStr (''Missing or invalid '' @ [CHR 0x27] @ ''settings'' @ [CHR 0x27] @ '' object.''))]), w)
      else
        (let w0 = record_call (Db Connect) w in
         case db_fault env Connect of
           Some err \<Rightarrow> (NoResponse, w0)
         | None \<Rightarrow>
             (let w1 = record_call (Db Begin) w0 in
              case db_fault env Begin of
                Some err \<Rightarrow> rollback env w0 w1 save_failed
              | None \<Rightarrow>
                  (case upsert_entries env (Object_entries settings_in) w1 of
                     (Some err, w2) \<Rightarrow> rollback env w0 w2 save_failed
                   | (None, w2) \<Rightarrow>
                       (let w3 = record_call (Db Commit) w2 in
                        case db_fault env Commit of
                          Some err \<Rightarrow> rollback env w0 w3 save_failed
                        | None \<Rightarrow>
                            (Json 200 (JObj [(''message'', JStr ''Settings saved successfully'')]),
                             w3))))))"

section \<open>Uploads\<close>

definition createUploadHandler ::
  "string \<Rightarrow> environment \<Rightarrow> request \<Rightarrow> world \<Rightarrow> response \<times> world" where
  "createUploadHandler entityName env req w =
     (case req_file req of
        None \<Rightarrow>
          (Json 400 (JObj [(''message'', JStr (''No '' @ entityName @ '' file provided.''))]), w)
      | Some f \<Rightarrow>
          (let w1 = record_call (BlobPut (originalname f)) w in
           case put_result env (originalname f) of
             Inr url \<Rightarrow>
               (Json 200 (JObj [(''message'',
                                  JStr (entityName @ '' uploaded successfully to Vercel Blob.'')),
                                (''url'', JStr url)]),
                w1\<lparr>blobs := url # blobs w1\<rparr>)
           | Inl err \<Rightarrow>
               (Json 500 (JObj [(''message'', JStr (''Failed to upload '' @ entityName @ ''.'')),
                                (''error'', JStr (err_message err))]),
                w1)))"

section \<open>Carousel\<close>

definition opt_json :: "string option \<Rightarrow> jsval" where
  "opt_json x = (case x of None \<Rightarrow> JNull | Some s \<Rightarrow> JStr s)"

definition image_json :: "carousel_image \<Rightarrow> jsval" where
  "image_json r =
     JObj [(''id'', JNum (image_id r)), (''image_url'', JStr (image_url r)),
           (''link_url'', opt_json (link_url r)), (''alt_text'', opt_json (alt_text r)),
           (''file_name'', opt_json (file_name r)), (''display_order'', JNum (display_order r))]"

text \<open>\<^verbatim>\<open>ORDER BY display_order ASC, id ASC\<close>.\<close>

definition list_carousel :: "carousel_image list \<Rightarrow> carousel_image list" where
  "list_carousel rows = sort_key (\<lambda>r. (display_order r, image_id r)) rows"

definition get_api_carousel :: "environment \<Rightarrow> request \<Rightarrow> world \<Rightarrow> response \<times> world" where
  "get_api_carousel env req w =
     (let w1 = record_call (Db SelectCarousel) w in
      case db_fault env SelectCarousel of
        Some err \<Rightarrow>
          (Json 500 (JObj [(''error'', JStr ''Failed to retrieve carousel images.'')]), w1)
      | None \<Rightarrow> (Json 200 (JArr (map image_json (list_carousel (carousel_images w1)))), w1))"

text \<open>\<^verbatim>\<open>COALESCE(MAX(display_order), 0)\<close>.\<close>

definition max_display_order :: "carousel_image list \<Rightarrow> int" where
  "max_display_order rows = (if rows = [] then 0 else Max (set (map display_order rows)))"

definition int4 :: "int \<Rightarrow> bool" where
  "int4 n = (- 2147483648 \<le> n \<and> n \<le> 2147483647)"

definition pg_error :: "string \<Rightarrow> js_error" where
  "pg_error msg = \<lparr>err_status = None, err_message = msg\<rparr>"

text \<open>
  The \<^verbatim>\<open>INSERT\<close> of a carousel row. The id comes from the sequence of the \<^verbatim>\<open>SERIAL\<close>
  column, the display order from the subquery. PostgreSQL refuses a value outside the
  32-bit \<^verbatim>\<open>INTEGER\<close> range and an id that the primary key already holds.
\<close>

definition insert_carousel ::
  "environment \<Rightarrow> string \<Rightarrow> string option \<Rightarrow> string \<Rightarrow> string \<Rightarrow> world \<Rightarrow>
   (js_error + carousel_image) \<times> world" where
  "insert_carousel env imageUrl linkURL altText originalFileName w =
     (let w1 = record_call (Db (InsertCarousel imageUrl linkURL altText originalFileName)) w in
      case db_fault env (InsertCarousel imageUrl linkURL altText originalFileName) of
        Some err \<Rightarrow> (Inl err, w1)
      | None \<Rightarrow>
          (let new_id = carousel_seq w1 + 1;
               new_order = max_display_order (carousel_images w1) + 1
           in if \<not> int4 new_id then
                (Inl (pg_error (''nextval: reached maximum value of sequence '' @ [CHR 0x22]
                        @ ''carousel_images_id_seq'' @ [CHR 0x22] @ '' (2147483647)'')), w1)
              else if \<not> int4 new_order then
                (Inl (pg_error ''integer out of range''), w1\<lparr>carousel_seq := new_id\<rparr>)
              else if new_id \<in> set (map image_id (carousel_images w1)) then
                (Inl (pg_error (''duplicate key value violates unique constraint '' @ [CHR 0x22]
                        @ ''carousel_images_pkey'' @ [CHR 0x22])),
                 w1\<lparr>carousel_seq := new_id\<rparr>)
              else
                (let row = \<lparr>image_id = new_id, image_url = imageUrl, link_url = linkURL,
                            alt_text = Some altText, file_name = Some originalFileName,
                            display_order = new_order\<rparr>
                 in (Inr row,
                     w1\<lparr>carousel_seq := new_id,
                        carousel_images := carousel_images w1 @ [row]\<rparr>))))"

definition add_failed :: "js_error \<Rightarrow> response" where
  "add_failed err =
     Json 500 (JObj [(''error'', JStr ''Failed to add carousel image.''),
                     (''details'', JStr (err_message err))])"

text \<open>
  \<^verbatim>\<open>POST /api/carousel\<close>. The fields of a multipart form are strings, and the database
  driver sends a string parameter as it is; \<^verbatim>\<open>linkURL || null\<close> and
  \<^verbatim>\<open>altText || 'Carousel Image'\<close> replace an absent or empty field.
\<close>

definition post_api_carousel :: "environment \<Rightarrow> request \<Rightarrow> world \<Rightarrow> response \<times> world" where
  "post_api_carousel env req w =
     (case req_file req of
        None \<Rightarrow> (Json 400 (JObj [(''error'', JStr ''No carousel image file uploaded.'')]), w)
      | Some f \<Rightarrow>
          (let linkURL = body_field req ''linkURL'';
               altText = body_field req ''altText'';
               originalFileName = originalname f;
               w1 = record_call (BlobPut originalFileName) w
           in case put_result env originalFileName of
                Inl err \<Rightarrow> (add_failed err, w1)
              | Inr imageUrl \<Rightarrow>
                  (case insert_carousel env imageUrl
                          (if truthy linkURL then Some (js_to_string linkURL) else None)
                          (if truthy altText then js_to_string altText else ''Carousel Image'')
                          originalFileName (w1\<lparr>blobs := imageUrl # blobs w1\<rparr>) of
                     (Inl err, w2) \<Rightarrow> (add_failed err, w2)
                   | (Inr row, w2) \<Rightarrow>
                       (Json 201 (JObj [(''message'', JStr ''Carousel image added successfully.''),
                                        (''image'', image_json row)]),
                        w2))))"

text \<open>
  \<^verbatim>\<open>await head(url); await del(url)\<close>: the result is the error thrown, if any. A blob
  leaves the store only when both calls succeed.
\<close>

definition head_and_del :: "environment \<Rightarrow> string \<Rightarrow> world \<Rightarrow> js_error option \<times> world" where
  "head_and_del env url w =
     (let w1 = record_call (BlobHead url) w in
      case head_fault env url of
        Some err \<Rightarrow> (Some err, w1)
      | None \<Rightarrow>
          (let w2 = record_call (BlobDel url) w1 in
           case del_fault env url of
             Some err \<Rightarrow> (Some err, w2)
           | None \<Rightarrow> (None, w2\<lparr>blobs := removeAll url (blobs w2)\<rparr>)))"

text \<open>
  The blob step of the delete handler in \<^verbatim>\<open>server.js\<close>. Its \<^verbatim>\<open>catch\<close> block tells a
  missing blob (status 404, or a message that mentions 404) from any other failure only
  to choose between a warning and an error in the log; neither branch throws.
\<close>

definition blob_cleanup :: "environment \<Rightarrow> string \<Rightarrow> world \<Rightarrow> js_error option \<times> world" where
  "blob_cleanup env imageUrlToDelete w =
     (if imageUrlToDelete \<noteq> [] \<and> prefix ''http'' imageUrlToDelete then
        (case head_and_del env imageUrlToDelete w of
           (None, w1) \<Rightarrow> (None, w1)
         | (Some blobError, w1) \<Rightarrow>
             if err_status blobError = Some 404
                \<or> (err_message blobError \<noteq> [] \<and> sublist ''404'' (err_message blobError))
             then (None, w1)
             else (None, w1))
      else (None, w))"

text \<open>
  The same step in the other Postgres variant of the server (\<^verbatim>\<open>part_000\<close>): a failure
  whose status is not 404 is thrown again, to the \<^verbatim>\<open>catch\<close> block that rolls back.
\<close>

definition blob_cleanup_part_000 ::
  "environment \<Rightarrow> string \<Rightarrow> world \<Rightarrow> js_error option \<times> world" where
  "blob_cleanup_part_000 env imageUrlToDelete w =
     (if imageUrlToDelete \<noteq> [] \<and> prefix ''http'' imageUrlToDelete then
        (case head_and_del env imageUrlToDelete w of
           (None, w1) \<Rightarrow> (None, w1)
         | (Some blobError, w1) \<Rightarrow>
             if err_status blobError = Some 404 then (None, w1)
             else (Some blobError, w1))
      else (None, w))"

definition delete_failed :: "js_error \<Rightarrow> response" where
  "delete_failed err =
     Json 500 (JObj [(''error'', JStr ''Failed to process image deletion.''),
                     (''details'', JStr (err_message err))])"

definition not_found :: response where
  "not_found = Json 404 (JObj [(''error'', JStr ''Image not found in database.'')])"

text \<open>
  The body of the \<^verbatim>\<open>try\<close> block of \<^verbatim>\<open>DELETE /api/carousel/:id\<close>, from \<^verbatim>\<open>BEGIN\<close> to the
  response; \<open>Inl\<close> is an exception on its way to the \<^verbatim>\<open>catch\<close> block. The two variants
  of the handler differ in the blob step only, which is a parameter here. An id
  outside the 32-bit range makes the \<^verbatim>\<open>SELECT\<close> fail.
\<close>

definition delete_try ::
  "(environment \<Rightarrow> string \<Rightarrow> world \<Rightarrow> js_error option \<times> world) \<Rightarrow>
   environment \<Rightarrow> int \<Rightarrow> world \<Rightarrow> (js_error + response) \<times> world" where
  "delete_try cleanup env imageId w0 =
     (let w1 = record_call (Db Begin) w0 in
      case db_fault env Begin of
        Some err \<Rightarrow> (Inl err, w1)
      | None \<Rightarrow>
          (let w2 = record_call (Db (SelectImageUrl imageId)) w1 in
           case (if int4 imageId then db_fault env (SelectImageUrl imageId)
                 else Some (pg_error (''value '' @ [CHR 0x22] @ number_to_string imageId
                        @ [CHR 0x22] @ '' is out of range for type integer''))) of
             Some err \<Rightarrow> (Inl err, w2)
           | None \<Rightarrow>
               (case filter (\<lambda>r. image_id r = imageId) (carousel_images w2) of
                  [] \<Rightarrow>
                    (let w3 = record_call (Db Rollback) w2 in
                     case db_fault env Rollback of
                       Some err \<Rightarrow> (Inl err, w3)
                     | None \<Rightarrow> (Inr not_found, w3))
                | found # _ \<Rightarrow>
                    (let imageUrlToDelete = image_url found;
                         w3 = record_call (Db (DeleteCarousel imageId)) w2
                     in case db_fault env (DeleteCarousel imageId) of
                          Some err \<Rightarrow> (Inl err, w3)
                        | None \<Rightarrow>
                            (let remaining = filter (\<lambda>r. image_id r \<noteq> imageId) (carousel_images w3);
                                 rowCount = length (carousel_images w3) - length remaining;
                                 w4 = w3\<lparr>carousel_images := remaining\<rparr>
                             in if rowCount = 0 then
                                  (Inl (pg_error
                                     ''Image found but could not be deleted from database.''), w4)
                                else
                                  (case cleanup env imageUrlToDelete w4 of
                                     (Some err, w5) \<Rightarrow> (Inl err, w5)
                                   | (None, w5) \<Rightarrow>
                                       (let w6 = record_call (Db Commit) w5 in
                                        case db_fault env Commit of
                                          Some err \<Rightarrow> (Inl err, w6)
                                        | None \<Rightarrow>
                                            (Inr (Json 200 (JObj [(''message'',
                                               JStr ''Carousel image deletion processed.'')])),
                                             w6))))))))"

definition delete_carousel_image ::
  "(environment \<Rightarrow> string \<Rightarrow> world \<Rightarrow> js_error option \<times> world) \<Rightarrow>
   environment \<Rightarrow> request \<Rightarrow> world \<Rightarrow> response \<times> world" where
  "delete_carousel_image cleanup env req w =
     (case parseInt10 (params_id req) of
        None \<Rightarrow> (Json 400 (JObj [(''error'', JStr ''Invalid image ID.'')]), w)
      | Some imageId \<Rightarrow>
          (let w0 = record_call (Db Connect) w in
           case db_fault env Connect of
             Some err \<Rightarrow> (NoResponse, w0)
           | None \<Rightarrow>
               (case delete_try cleanup env imageId w0 of
                  (Inr resp, w') \<Rightarrow> (resp, w')
                | (Inl err, w') \<Rightarrow> rollback env w0 w' (delete_failed err))))"

definition delete_api_carousel :: "environment \<Rightarrow> request \<Rightarrow> world \<Rightarrow> response \<times> world" where
  "delete_api_carousel = delete_carousel_image blob_cleanup"

definition delete_api_carousel_part_000 ::
  "environment \<Rightarrow> request \<Rightarrow> world \<Rightarrow> response \<times> world" where
  "delete_api_carousel_part_000 = delete_carousel_image blob_cleanup_part_000"

section \<open>Contact form\<close>

text \<open>\<^verbatim>\<open>a || b\<close> on values that are a string or absent: the empty string is falsy too.\<close>

definition or_else :: "string option \<Rightarrow> string option \<Rightarrow> string option" where
  "or_else a b = (case a of None \<Rightarrow> b | Some s \<Rightarrow> if s = [] then b else Some s)"

definition or_default :: "string option \<Rightarrow> string \<Rightarrow> string" where
  "or_default a d = (case a of None \<Rightarrow> d | Some s \<Rightarrow> if s = [] then d else s)"

text \<open>
  The settings object the contact handler builds from its \<^verbatim>\<open>SELECT\<close>; it stays empty
  when the query fails.
\<close>

definition contact_setting :: "environment \<Rightarrow> world \<Rightarrow> string \<Rightarrow> string option" where
  "contact_setting env w name =
     (case db_fault env SelectContactSettings of
        Some err \<Rightarrow> None
      | None \<Rightarrow>
          (if name \<in> set [''contactFormAction'', ''schoolContactEmail'', ''adminSchoolWhatsappNumber'']
           then (case map_of (settings w) name of Some (Some s) \<Rightarrow> Some s | _ \<Rightarrow> None)
           else None))"

definition whatsappMessageBody :: "jsval \<Rightarrow> jsval \<Rightarrow> jsval \<Rightarrow> jsval \<Rightarrow> string" where
  "whatsappMessageBody contactName contactEmail contactSubject contactMessage =
     ''New Contact Form Submission:'' @ [CHR 0x0A]
     @ ''Name: '' @ js_to_string contactName @ [CHR 0x0A]
     @ ''Email: '' @ js_to_string contactEmail @ [CHR 0x0A]
     @ ''Subject: '' @ js_to_string contactSubject @ [CHR 0x0A]
     @ ''Message:'' @ [CHR 0x0A] @ js_to_string contactMessage"

definition whatsappUrl :: "string \<Rightarrow> string \<Rightarrow> string" where
  "whatsappUrl whatsAppNumber messageBody =
     ''https://wa.me/'' @ filter is_digit whatsAppNumber @ ''?text=''
     @ encodeURIComponent messageBody"

definition br_newlines :: "string \<Rightarrow> string" where
  "br_newlines s = concat (map (\<lambda>c. if c = CHR 0x0A then ''<br>'' else [c]) s)"

definition mailOptions ::
  "environment \<Rightarrow> jsval \<Rightarrow> jsval \<Rightarrow> jsval \<Rightarrow> string \<Rightarrow> string \<Rightarrow> mail" where
  "mailOptions env contactName contactEmail contactSubject message recipientEmail =
     \<lparr>mail_from = [CHR 0x22] @ js_to_string contactName @ '' via School Website'' @ [CHR 0x22]
                   @ '' <'' @ or_default (process_env env ''EMAIL_FROM_ADDRESS'') ''noreply@example.com''
                   @ ''>'',
      replyTo = js_to_string contactEmail,
      mail_to = recipientEmail,
      subject = ''New Contact Form: '' @ js_to_string contactSubject,
      text_body = ''You have a new submission:'' @ [CHR 0x0A, CHR 0x0A]
                  @ ''Name: '' @ js_to_string contactName @ [CHR 0x0A]
                  @ ''Email: '' @ js_to_string contactEmail @ [CHR 0x0A, CHR 0x0A]
                  @ ''Message:'' @ [CHR 0x0A] @ message,
      html_body = ''<p>You have a new submission:</p><ul><li><strong>Name:</strong> ''
                  @ js_to_string contactName @ ''</li><li><strong>Email:</strong> ''
                  @ js_to_string contactEmail
                  @ ''</li></ul><p><strong>Message:</strong></p><p>''
                  @ br_newlines message @ ''</p>''\<rparr>"

definition contact_reply :: "nat \<Rightarrow> bool \<Rightarrow> string \<Rightarrow> response" where
  "contact_reply code ok msg = Json code (JObj [(''success'', JBool ok), (''message'', JStr msg)])"

text \<open>
  \<^verbatim>\<open>POST /api/submit-contact\<close>. In the email branch a message that is not a string has
  no \<^verbatim>\<open>replace\<close> method: the handler throws and no response is sent.
\<close>

definition post_api_submit_contact ::
  "environment \<Rightarrow> request \<Rightarrow> world \<Rightarrow> response \<times> world" where
  "post_api_submit_contact env req w =
     (let contactName = body_field req ''contactName'';
          contactEmail = body_field req ''contactEmail'';
          contactSubject = body_field req ''contactSubject'';
          contactMessage = body_field req ''contactMessage''
      in if \<not> truthy contactName \<or> \<not> truthy contactEmail \<or> \<not> truthy contactSubject
            \<or> \<not> truthy contactMessage then
           (contact_reply 400 False ''All fields are required.'', w)
         else
           (let w1 = record_call (Db SelectContactSettings) w;
                contactFormAction =
                  or_default (or_else (contact_setting env w1 ''contactFormAction'')
                                      (process_env env ''CONTACT_FORM_ACTION_DEFAULT''))
                             ''whatsapp''
            in if contactFormAction = ''whatsapp'' then
                 (case or_else (contact_setting env w1 ''adminSchoolWhatsappNumber'')
                               (process_env env ''SCHOOL_WHATSAPP_NUMBER'') of
                    None \<Rightarrow> (contact_reply 500 False ''Server error: WhatsApp number not set.'', w1)
                  | Some whatsAppNumber \<Rightarrow>
                      if whatsAppNumber = [] then
                        (contact_reply 500 False ''Server error: WhatsApp number not set.'', w1)
                      else
                        (Json 200 (JObj [(''success'', JBool True), (''action'', JStr ''whatsapp''),
                           (''whatsappUrl'',
                            JStr (whatsappUrl whatsAppNumber
                                    (whatsappMessageBody contactName contactEmail contactSubject
                                       contactMessage))),
                           (''message'',
                            JStr (''Please click '' @ [CHR 0x27] @ ''Send'' @ [CHR 0x27]
                                  @ '' in WhatsApp.''))]),
                         w1))
               else if contactFormAction = ''email'' then
                 (if \<not> mailTransporter env then
                    (contact_reply 500 False ''Server error: Email service not available.'', w1)
                  else
                    (case or_else (contact_setting env w1 ''schoolContactEmail'')
                                  (process_env env ''SCHOOL_CONTACT_EMAIL_TO'') of
                       None \<Rightarrow>
                         (contact_reply 500 False ''Server error: Recipient email not set.'', w1)
                     | Some recipientEmail \<Rightarrow>
                         if recipientEmail = [] then
                           (contact_reply 500 False ''Server error: Recipient email not set.'', w1)
                         else
                           (case contactMessage of
                              JStr message \<Rightarrow>
                                (let m = mailOptions env contactName contactEmail contactSubject
                                           message recipientEmail;
                                     w2 = record_call (SendMail m) w1
                                 in case mail_fault env m of
                                      None \<Rightarrow>
                                        (Json 200 (JObj [(''success'', JBool True),
                                           (''action'', JStr ''email''),
                                           (''message'',
                                            JStr ''Your message has been sent successfully!'')]),
                                         w2)
                                    | Some err \<Rightarrow>
                                        (Json 500 (JObj [(''success'', JBool False),
                                           (''action'', JStr ''email''),
                                           (''message'',
                                            JStr ''Failed to send message. Please try again later.'')]),
                                         w2))
                            | _ \<Rightarrow> (NoResponse, w1))))
               else
                 (contact_reply 500 False
                    ''Server configuration error: Invalid contact form action.'', w1)))"

section \<open>Routes\<close>

datatype route =
    GET_api_settings
  | POST_api_settings
  | POST_api_upload_logo
  | POST_api_upload_about_image
  | POST_api_upload_academics_image
  | GET_api_carousel
  | POST_api_carousel
  | DELETE_api_carousel
  | POST_api_submit_contact
  | POST_api_logout

text \<open>The registrations of \<^verbatim>\<open>server.js\<close>: which routes pass through \<^verbatim>\<open>checkAuth\<close> first.\<close>

fun handle :: "route \<Rightarrow> environment \<Rightarrow> request \<Rightarrow> world \<Rightarrow> response \<times> world" where
  "handle GET_api_settings env req w = get_api_settings env req w"
| "handle POST_api_settings env req w = protected post_api_settings env req w"
| "handle POST_api_upload_logo env req w = protected (createUploadHandler ''Logo'') env req w"
| "handle POST_api_upload_about_image env req w =
     protected (createUploadHandler ''About image'') env req w"
| "handle POST_api_upload_academics_image env req w =
     protected (createUploadHandler ''Academics image'') env req w"
| "handle GET_api_carousel env req w = get_api_carousel env req w"
| "handle POST_api_carousel env req w = protected post_api_carousel env req w"
| "handle DELETE_api_carousel env req w = protected delete_api_carousel env req w"
| "handle POST_api_submit_contact env req w = post_api_submit_contact env req w"
| "handle POST_api_logout env req w = post_api_logout env req w"


text \<open>The server answering a sequence of requests, one after the other.\<close>

fun serve :: "environment \<Rightarrow> (route \<times> request) list \<Rightarrow> world \<Rightarrow> response list \<times> world" where
  "serve env [] w = ([], w)"
| "serve env ((r, req) # rest) w =
     (case handle r env req w of
        (resp, w1) \<Rightarrow> (case serve env rest w1 of (resps, w2) \<Rightarrow> (resp # resps, w2)))"


section \<open>Example data\<close>

definition no_faults :: environment where
  "no_faults =
     \<lparr>db_fault = (\<lambda>c. None),
      put_result = (\<lambda>name. Inr (''https://blob.example/'' @ name)),
      head_fault = (\<lambda>url. None),
      del_fault = (\<lambda>url. None),
      mail_fault = (\<lambda>m. None),
      destroy_fault = (\<lambda>sid. None),
      mailTransporter = False,
      process_env = (\<lambda>name. None)\<rparr>"

definition api_request :: "string \<Rightarrow> session option \<Rightarrow> (string \<times> jsval) list \<Rightarrow> request" where
  "api_request url s b =
     \<lparr>originalUrl = url, req_session = s, body = b, params_id = [], req_file = None\<rparr>"

text \<open>An environment in which the database refuses one upsert, of the name \<open>b\<close>.\<close>

definition refuses_b :: environment where
  "refuses_b =
     no_faults\<lparr>db_fault :=
       (\<lambda>c. case c of
              UpsertSetting k v \<Rightarrow> if k = ''b'' then Some (pg_error ''connection lost'') else None
            | _ \<Rightarrow> None)\<rparr>"



definition admin :: session where
  "admin = \<lparr>sessionID = ''s1'', authenticated = True, username = Some ''admin''\<rparr>"

definition empty_world :: world where
  "empty_world =
     \<lparr>settings = [], carousel_images = [], carousel_seq = 0, blobs = [],
      sessions = [(''s1'', admin)], calls = []\<rparr>"

text \<open>A blob store whose \<^verbatim>\<open>head\<close> fails with a server error, not a 404.\<close>

definition blob_down :: environment where
  "blob_down =
     no_faults\<lparr>head_fault :=
       (\<lambda>url. Some \<lparr>err_status = Some 500, err_message = ''Internal Server Error''\<rparr>)\<rparr>"

definition image_a :: carousel_image where
  "image_a =
     \<lparr>image_id = 1, image_url = ''https://blob.example/a.png'', link_url = None,
      alt_text = Some ''Carousel Image'', file_name = Some ''a.png'', display_order = 1\<rparr>"

definition one_image :: world where
  "one_image =
     empty_world\<lparr>carousel_images := [image_a], carousel_seq := 1,
                  blobs := [''https://blob.example/a.png'']\<rparr>"

definition image_b :: carousel_image where
  "image_b =
     \<lparr>image_id = 2, image_url = ''https://blob.example/b.png'', link_url = None,
      alt_text = Some ''Carousel Image'', file_name = Some ''b.png'', display_order = 2\<rparr>"

definition image_c :: carousel_image where
  "image_c =
     \<lparr>image_id = 3, image_url = ''https://blob.example/c.png'', link_url = None,
      alt_text = Some ''Carousel Image'', file_name = Some ''c.png'', display_order = 3\<rparr>"

definition delete_request :: "string \<Rightarrow> request" where
  "delete_request i = (api_request (''/api/carousel/'' @ i) (Some admin) [])\<lparr>params_id := i\<rparr>"

definition upload_request :: "string \<Rightarrow> request" where
  "upload_request name =
     (api_request ''/api/carousel'' (Some admin) [])\<lparr>req_file := Some \<lparr>originalname = name\<rparr>\<rparr>"

definition three_uploads :: "(route \<times> request) list" where
  "three_uploads =
     [(POST_api_carousel, upload_request ''a.png''), (POST_api_carousel, upload_request ''b.png''),
      (POST_api_carousel, upload_request ''c.png'')]"

definition three_images :: world where
  "three_images = snd (serve no_faults three_uploads empty_world)"

section \<open>The JSON codec: parsing the serialization gives the value back\<close>

lemma skip_ws_Cons: "\<not> is_ws c \<Longrightarrow> skip_ws (c # cs) = c # cs"
  by (simp add: skip_ws_def)

lemma skip_ws_delim: "delim r \<Longrightarrow> skip_ws r = r"
  by (cases r) (auto simp: delim_def skip_ws_def is_ws_def)










lemma digits_value_snoc: "digits_value (ds @ [c]) = 10 * digits_value ds + (of_char c - 48)"
  by (simp add: digits_value_def)

lemma digit_char_value: "d < 10 \<Longrightarrow> (of_char (digit_char d) :: nat) - 48 = d"
  by (simp add: digit_char_def)

lemma digits_value_digits_of_nat: "digits_value (digits_of_nat n) = n"
proof (induction n rule: digits_of_nat.induct)
  case (1 n)
  show ?case
  proof (cases "n < 10")
    case True
    then show ?thesis
      by (subst digits_of_nat.simps) (simp add: digits_value_def digit_char_value)
  next
    case False
    then show ?thesis using 1
      by (subst digits_of_nat.simps) (simp add: digits_value_snoc digit_char_value)
  qed
qed
























section \<open>The fuel of the parser is enough\<close>

lemma skip_ws_length: "length (skip_ws s) \<le> length s"
  by (simp add: skip_ws_def length_dropWhile_le)

lemma skip_ws_ConsD: "skip_ws s = c # cs \<Longrightarrow> length cs < length s"
  using skip_ws_length [of s] by simp

lemma parse_chars_shorter: "parse_chars s = Some (k, r) \<Longrightarrow> length r < length s"
proof (induction "length s" arbitrary: s k r rule: less_induct)
  case less
  have IH: "length r' < length s" if "length t < length s" "parse_chars t = Some (k', r')" for t k' r'
    using less.hyps [OF that(1) that(2)] that(1) by simp
  show ?case
  proof (cases s)
    case Nil
    then show ?thesis using less.prems by simp
  next
    case (Cons c cs)
    have a: "length r' < length cs" if "parse_chars cs = Some (k', r')" for k' r'
      using less.hyps [of cs k' r'] that Cons by simp
    have b: "length r' < length es" if "cs = e # es" "parse_chars es = Some (k', r')" for e es k' r'
      using less.hyps [of es k' r'] that Cons by simp
    have c: "length r' < length t" if "cs = e # x1 # x2 # x3 # x4 # t" "parse_chars t = Some (k', r')"
      for e x1 x2 x3 x4 t k' r'
      using less.hyps [of t k' r'] that Cons by simp
    show ?thesis
      using less.prems
      by (auto simp add: Cons split: if_splits list.splits option.splits dest: a b c)
  qed
qed

lemma parse_number_shorter: "parse_number s = Some (v, r) \<Longrightarrow> length r < length s"
proof -
  assume p: "parse_number s = Some (v, r)"
  let ?neg = "(case s of [] \<Rightarrow> False | c # _ \<Rightarrow> c = CHR ''-'')"
  let ?t = "if ?neg then tl s else s"
  have r: "r = dropWhile is_digit ?t" and ne: "takeWhile is_digit ?t \<noteq> []"
    using p by (auto simp: parse_number_def Let_def split: if_splits)
  have "length (takeWhile is_digit ?t) + length (dropWhile is_digit ?t) = length ?t"
    by (metis length_append takeWhile_dropWhile_id)
  then have "length r < length ?t" using ne r by (cases "takeWhile is_digit ?t") auto
  moreover have "length ?t \<le> length s" by simp
  ultimately show ?thesis by simp
qed


lemma parse_value_step:
  assumes "parse_value (Suc n) s = Some (v, r)"
    and "\<And>t ms r'. parse_members n t = Some (ms, r') \<Longrightarrow> length r' < length t"
    and "\<And>t vs r'. parse_elements n t = Some (vs, r') \<Longrightarrow> length r' < length t"
  shows "length r < length s"
proof (cases "skip_ws s")
  case Nil
  then show ?thesis using assms(1) by simp
next
  case (Cons c cs)
  have cs: "length cs < length s" by (rule skip_ws_ConsD [OF Cons])
  have all: "length (c # cs) \<le> length s" using skip_ws_length [of s] Cons by simp
  have sk: "length r' < length cs" if "skip_ws cs = d # r'" for d r'
    using skip_ws_ConsD [OF that] .
  consider (obj) "c = CHR ''{''" | (arr) "c \<noteq> CHR ''{''" "c = CHR ''[''"
    | (str) "c \<noteq> CHR ''{''" "c \<noteq> CHR ''[''" "c = CHR 0x22"
    | (num) "c \<noteq> CHR ''{''" "c \<noteq> CHR ''[''" "c \<noteq> CHR 0x22" "c = CHR ''-'' \<or> is_digit c"
    | (lit) "c \<noteq> CHR ''{''" "c \<noteq> CHR ''[''" "c \<noteq> CHR 0x22" "\<not> (c = CHR ''-'' \<or> is_digit c)"
    by blast
  then show ?thesis
  proof cases
    case obj
    then show ?thesis
      using assms(1) Cons cs
      by (auto split: list.splits if_splits option.splits dest!: sk assms(2))
  next
    case arr
    then show ?thesis
      using assms(1) Cons cs
      by (auto split: list.splits if_splits option.splits dest!: sk assms(3))
  next
    case str
    then show ?thesis
      using assms(1) Cons cs
      by (auto split: option.splits dest!: parse_chars_shorter)
  next
    case num
    then have "parse_number (c # cs) = Some (v, r)" using assms(1) Cons by auto
    then have "length r < length (c # cs)" by (rule parse_number_shorter)
    then show ?thesis using all by simp
  next
    case lit
    then have "r = drop 4 (c # cs) \<or> r = drop 5 (c # cs)"
      using assms(1) Cons by (auto split: if_splits)
    then show ?thesis using all by auto
  qed
qed

lemma parse_elements_step:
  assumes "parse_elements (Suc n) s = Some (vs, r)"
    and "\<And>t v r'. parse_value n t = Some (v, r') \<Longrightarrow> length r' < length t"
    and "\<And>t vs r'. parse_elements n t = Some (vs, r') \<Longrightarrow> length r' < length t"
  shows "length r < length s"
proof -
  obtain v r1 where v: "parse_value n s = Some (v, r1)"
    using assms(1) by (auto split: option.splits)
  have r1: "length r1 < length s" by (rule assms(2) [OF v])
  obtain c r2 where c: "skip_ws r1 = c # r2"
    using assms(1) v by (auto split: list.splits)
  have r2: "length r2 < length r1" by (rule skip_ws_ConsD [OF c])
  show ?thesis
    using assms(1) v c r1 r2
    by (auto split: if_splits option.splits dest!: assms(3))
qed

lemma parse_members_step:
  assumes "parse_members (Suc n) s = Some (ms, r)"
    and "\<And>t v r'. parse_value n t = Some (v, r') \<Longrightarrow> length r' < length t"
    and "\<And>t ms r'. parse_members n t = Some (ms, r') \<Longrightarrow> length r' < length t"
  shows "length r < length s"
proof -
  obtain q s1 where q: "skip_ws s = q # s1"
    using assms(1) by (auto split: list.splits)
  have s1: "length s1 < length s" by (rule skip_ws_ConsD [OF q])
  obtain k s2 where k: "parse_chars s1 = Some (k, s2)"
    using assms(1) q by (auto split: if_splits option.splits)
  have s2: "length s2 < length s1" by (rule parse_chars_shorter [OF k])
  obtain col s3 where col: "skip_ws s2 = col # s3"
    using assms(1) q k by (auto split: if_splits list.splits)
  have s3: "length s3 < length s2" by (rule skip_ws_ConsD [OF col])
  obtain v s4 where v: "parse_value n s3 = Some (v, s4)"
    using assms(1) q k col by (auto split: if_splits option.splits)
  have s4: "length s4 < length s3" by (rule assms(2) [OF v])
  obtain c s5 where c: "skip_ws s4 = c # s5"
    using assms(1) q k col v by (auto split: if_splits list.splits)
  have s5: "length s5 < length s4" by (rule skip_ws_ConsD [OF c])
  show ?thesis
    using assms(1) q k col v c s1 s2 s3 s4 s5
    by (auto split: if_splits option.splits dest!: assms(3))
qed

lemma parse_shorter:
  "(\<forall>s v r. parse_value n s = Some (v, r) \<longrightarrow> length r < length s)
   \<and> (\<forall>s vs r. parse_elements n s = Some (vs, r) \<longrightarrow> length r < length s)
   \<and> (\<forall>s ms r. parse_members n s = Some (ms, r) \<longrightarrow> length r < length s)"
proof (induction n)
  case 0
  then show ?case by simp
next
  case (Suc n)
  show ?case
    using Suc.IH parse_value_step [of n] parse_elements_step [of n] parse_members_step [of n]
    by blast
qed

lemmas parse_value_shorter = parse_shorter [THEN conjunct1, rule_format]


lemma fuel_value_step:
  assumes "2 * length s + 1 \<le> Suc n"
    and "\<And>t. 2 * length t + 2 \<le> n \<Longrightarrow> parse_elements (Suc n) t = parse_elements n t"
    and "\<And>t. 2 * length t + 2 \<le> n \<Longrightarrow> parse_members (Suc n) t = parse_members n t"
  shows "parse_value (Suc (Suc n)) s = parse_value (Suc n) s"
proof (cases "skip_ws s")
  case Nil
  then show ?thesis by (simp only: parse_value.simps(2) [of "Suc n" s] parse_value.simps(2) [of n s] list.case)
next
  case (Cons c cs)
  have "length cs < length s" by (rule skip_ws_ConsD [OF Cons])
  then have "2 * length cs + 2 \<le> n" using assms(1) by simp
  then have e: "parse_elements (Suc n) cs = parse_elements n cs"
    "parse_members (Suc n) cs = parse_members n cs"
    by (rule assms(2), rule assms(3))
  show ?thesis by (simp only: parse_value.simps(2) [of "Suc n" s] parse_value.simps(2) [of n s] Cons list.case e)
qed

lemma fuel_elements_step:
  assumes "2 * length s + 2 \<le> Suc n"
    and "\<And>t. 2 * length t + 1 \<le> n \<Longrightarrow> parse_value (Suc n) t = parse_value n t"
    and "\<And>t. 2 * length t + 2 \<le> n \<Longrightarrow> parse_elements (Suc n) t = parse_elements n t"
  shows "parse_elements (Suc (Suc n)) s = parse_elements (Suc n) s"
proof -
  have "2 * length s + 1 \<le> n" using assms(1) by simp
  then have v: "parse_value (Suc n) s = parse_value n s" by (rule assms(2))
  show ?thesis
  proof (cases "parse_value n s")
    case None
    show ?thesis by (simp only: parse_elements.simps(2) [of "Suc n" s] parse_elements.simps(2) [of n s] v None option.case)
  next
    case (Some p)
    obtain x r where p: "p = (x, r)" by (cases p)
    have r: "length r < length s" using parse_value_shorter [of n s x r] Some p by simp
    show ?thesis
    proof (cases "skip_ws r")
      case Nil
      show ?thesis by (simp only: parse_elements.simps(2) [of "Suc n" s] parse_elements.simps(2) [of n s] v Some p option.case prod.case Nil list.case)
    next
      case (Cons c r')
      have "length r' < length r" by (rule skip_ws_ConsD [OF Cons])
      then have "2 * length r' + 2 \<le> n" using r assms(1) by simp
      then have e: "parse_elements (Suc n) r' = parse_elements n r'" by (rule assms(3))
      show ?thesis
        by (simp only: parse_elements.simps(2) [of "Suc n" s] parse_elements.simps(2) [of n s] v Some p option.case prod.case Cons list.case e)
    qed
  qed
qed

lemma fuel_members_step:
  assumes "2 * length s + 2 \<le> Suc n"
    and "\<And>t. 2 * length t + 1 \<le> n \<Longrightarrow> parse_value (Suc n) t = parse_value n t"
    and "\<And>t. 2 * length t + 2 \<le> n \<Longrightarrow> parse_members (Suc n) t = parse_members n t"
  shows "parse_members (Suc (Suc n)) s = parse_members (Suc n) s"
proof (cases "skip_ws s")
  case Nil
  show ?thesis by (simp only: parse_members.simps(2) [of "Suc n" s] parse_members.simps(2) [of n s] Nil list.case)
next
  case (Cons q s1)
  have s1: "length s1 < length s" by (rule skip_ws_ConsD [OF Cons])
  show ?thesis
  proof (cases "parse_chars s1")
    case None
    show ?thesis by (simp only: parse_members.simps(2) [of "Suc n" s] parse_members.simps(2) [of n s] Cons list.case None option.case)
  next
    case (Some p)
    obtain k s2 where p: "p = (k, s2)" by (cases p)
    have s2: "length s2 < length s1" using parse_chars_shorter [of s1 k s2] Some p by simp
    show ?thesis
    proof (cases "skip_ws s2")
      case Nil
      show ?thesis
        by (simp only: parse_members.simps(2) [of "Suc n" s] parse_members.simps(2) [of n s] Cons list.case Some p option.case prod.case Nil)
    next
      case col: (Cons col s3)
      have s3: "length s3 < length s2" by (rule skip_ws_ConsD [OF col])
      have "2 * length s3 + 1 \<le> n" using s1 s2 s3 assms(1) by simp
      then have v: "parse_value (Suc n) s3 = parse_value n s3" by (rule assms(2))
      show ?thesis
      proof (cases "parse_value n s3")
        case None
        show ?thesis
          by (simp only: parse_members.simps(2) [of "Suc n" s] parse_members.simps(2) [of n s] Cons list.case Some p option.case prod.case col v None)
      next
        case val: (Some pv)
        obtain x s4 where pv: "pv = (x, s4)" by (cases pv)
        have s4: "length s4 < length s3" using parse_value_shorter [of n s3 x s4] val pv by simp
        show ?thesis
        proof (cases "skip_ws s4")
          case Nil
          show ?thesis
            by (simp only: parse_members.simps(2) [of "Suc n" s] parse_members.simps(2) [of n s] Cons list.case Some p option.case prod.case col v
                  val pv Nil)
        next
          case c: (Cons c s5)
          have "length s5 < length s4" by (rule skip_ws_ConsD [OF c])
          then have "2 * length s5 + 2 \<le> n" using s1 s2 s3 s4 assms(1) by simp
          then have e: "parse_members (Suc n) s5 = parse_members n s5" by (rule assms(3))
          show ?thesis
            by (simp only: parse_members.simps(2) [of "Suc n" s] parse_members.simps(2) [of n s] Cons list.case Some p option.case prod.case col v
                  val pv c e)
        qed
      qed
    qed
  qed
qed

lemma fuel_step:
  "(\<forall>s. 2 * length s + 1 \<le> n \<longrightarrow> parse_value (Suc n) s = parse_value n s)
   \<and> (\<forall>s. 2 * length s + 2 \<le> n \<longrightarrow> parse_elements (Suc n) s = parse_elements n s)
   \<and> (\<forall>s. 2 * length s + 2 \<le> n \<longrightarrow> parse_members (Suc n) s = parse_members n s)"
proof (induction n)
  case 0
  then show ?case by simp
next
  case (Suc n)
  show ?case
    using Suc.IH fuel_value_step [of _ n] fuel_elements_step [of _ n] fuel_members_step [of _ n]
    by blast
qed

text \<open>
  More fuel than \<open>2 * length s + 2\<close> changes nothing: a text the parser refuses is
  refused for its syntax, never for want of fuel.
\<close>

lemma parse_value_fuel:
  "2 * length s + 2 \<le> n \<Longrightarrow> parse_value n s = parse_value (2 * length s + 2) s"
proof (induction n)
  case 0
  then show ?case by simp
next
  case (Suc n)
  show ?case
  proof (cases "2 * length s + 2 \<le> n")
    case True
    then have "parse_value (Suc n) s = parse_value n s"
      using fuel_step [of n] by simp
    then show ?thesis using Suc.IH [OF True] by simp
  next
    case False
    then have "Suc n = 2 * length s + 2" using Suc.prems by simp
    then show ?thesis by simp
  qed
qed

section \<open>Settings: the bulk upsert\<close>

lemma record_call_fields [simp]:
  "settings (record_call c w) = settings w"
  "carousel_images (record_call c w) = carousel_images w"
  "carousel_seq (record_call c w) = carousel_seq w"
  "blobs (record_call c w) = blobs w"
  "sessions (record_call c w) = sessions w"
  "calls (record_call c w) = calls w @ [c]"
  by (simp_all add: record_call_def)

lemma rollback_fields:
  "settings (snd (rollback env w0 w resp)) = settings w0"
  "carousel_images (snd (rollback env w0 w resp)) = carousel_images w0"
  "carousel_seq (snd (rollback env w0 w resp)) = carousel_seq w"
  "blobs (snd (rollback env w0 w resp)) = blobs w"
  "sessions (snd (rollback env w0 w resp)) = sessions w"
  by (simp_all add: rollback_def Let_def split: option.splits)

lemma rollback_response:
  "fst (rollback env w0 w resp) = (if db_fault env Rollback = None then resp else NoResponse)"
  by (simp add: rollback_def Let_def split: option.splits)

lemma upsert_entries_fields:
  "carousel_images (snd (upsert_entries env es w)) = carousel_images w"
  "carousel_seq (snd (upsert_entries env es w)) = carousel_seq w"
  "blobs (snd (upsert_entries env es w)) = blobs w"
  "sessions (snd (upsert_entries env es w)) = sessions w"
  by (induction env es w rule: upsert_entries.induct; simp add: Let_def split: option.splits)+

lemma upsert_entries_ok:
  "fst (upsert_entries env es w) = None \<longleftrightarrow>
     (\<forall>(k, v) \<in> set es. db_fault env (UpsertSetting k (valueToStore v)) = None)"
  by (induction env es w rule: upsert_entries.induct) (auto simp: Let_def split: option.splits)

lemma upsert_entries_settings:
  "fst (upsert_entries env es w) = None \<Longrightarrow>
   settings (snd (upsert_entries env es w)) = upsert_all es (settings w)"
  by (induction env es w rule: upsert_entries.induct)
     (auto simp: Let_def upsert_all_def split: option.splits)

lemma map_of_upsert_all:
  "map_of (upsert_all es t) =
     map_of t ++ map_of (rev (map (\<lambda>kv. (fst kv, Some (valueToStore (snd kv)))) es))"
proof (induction es arbitrary: t)
  case Nil
  then show ?case by (simp add: upsert_all_def)
next
  case (Cons e es)
  have "upsert_all (e # es) t = upsert_all es (AList.update (fst e) (Some (valueToStore (snd e))) t)"
    by (simp add: upsert_all_def)
  then show ?case
    by (auto simp add: Cons.IH update_conv' map_add_def fun_eq_iff split: option.splits)
qed


lemma protected_authenticated:
  "is_authenticated req \<Longrightarrow> protected handler env req w = handler env req w"
  by (simp add: protected_def checkAuth_def)

lemma protected_denied:
  "\<not> is_authenticated req \<Longrightarrow>
   protected handler env req w =
     ((if prefix ''/api/'' (originalUrl req) then
         Json 401 (JObj [(''error'', JStr ''Unauthorized. Please log in.''),
                         (''redirectTo'', JStr ''/login.html?unauthorized=true'')])
       else Redirect 302 ''/login.html?unauthorized=true''), w)"
  by (simp add: protected_def checkAuth_def)

lemma post_api_settings_committed:
  assumes "truthy (body_field req ''settings'')" "typeof_object (body_field req ''settings'')"
    and "db_fault env Connect = None" "db_fault env Begin = None" "db_fault env Commit = None"
    and "\<forall>(k, v) \<in> set (Object_entries (body_field req ''settings'')).
           db_fault env (UpsertSetting k (valueToStore v)) = None"
  shows "fst (post_api_settings env req w) =
           Json 200 (JObj [(''message'', JStr ''Settings saved successfully'')])"
    and "settings (snd (post_api_settings env req w)) =
           upsert_all (Object_entries (body_field req ''settings'')) (settings w)"
proof -
  let ?es = "Object_entries (body_field req ''settings'')"
  let ?w1 = "record_call (Db Begin) (record_call (Db Connect) w)"
  obtain w2 where u: "upsert_entries env ?es ?w1 = (None, w2)"
    using assms(6) upsert_entries_ok [of env ?es ?w1] by (cases "upsert_entries env ?es ?w1") auto
  have s2: "settings w2 = upsert_all ?es (settings w)"
    using upsert_entries_settings [of env ?es ?w1] u by simp
  show "fst (post_api_settings env req w) =
           Json 200 (JObj [(''message'', JStr ''Settings saved successfully'')])"
    using assms(1-5) u by (simp add: post_api_settings_def Let_def)
  show "settings (snd (post_api_settings env req w)) = upsert_all ?es (settings w)"
    using assms(1-5) u s2 by (simp add: post_api_settings_def Let_def)
qed

lemma post_api_settings_aborted:
  assumes "truthy (body_field req ''settings'')" "typeof_object (body_field req ''settings'')"
    and "db_fault env Connect = None"
    and "\<not> (db_fault env Begin = None \<and> db_fault env Commit = None \<and>
            (\<forall>(k, v) \<in> set (Object_entries (body_field req ''settings'')).
               db_fault env (UpsertSetting k (valueToStore v)) = None))"
  shows "fst (post_api_settings env req w) =
           (if db_fault env Rollback = None then save_failed else NoResponse)"
    and "settings (snd (post_api_settings env req w)) = settings w"
proof -
  let ?es = "Object_entries (body_field req ''settings'')"
  let ?w0 = "record_call (Db Connect) w"
  let ?w1 = "record_call (Db Begin) ?w0"
  obtain r w2 where u: "upsert_entries env ?es ?w1 = (r, w2)"
    by (cases "upsert_entries env ?es ?w1")
  have r: "r = None \<longleftrightarrow> (\<forall>(k, v) \<in> set ?es. db_fault env (UpsertSetting k (valueToStore v)) = None)"
    using upsert_entries_ok [of env ?es ?w1] u by simp
  have eq: "post_api_settings env req w =
      (if db_fault env Begin \<noteq> None then rollback env ?w0 ?w1 save_failed
       else if r \<noteq> None then rollback env ?w0 w2 save_failed
       else rollback env ?w0 (record_call (Db Commit) w2) save_failed)"
    using assms r u by (auto simp add: post_api_settings_def Let_def split: option.splits)
  show "fst (post_api_settings env req w) =
           (if db_fault env Rollback = None then save_failed else NoResponse)"
    by (simp add: eq rollback_response)
  show "settings (snd (post_api_settings env req w)) = settings w"
    by (simp add: eq rollback_fields)
qed

lemma post_api_settings_200:
  assumes "fst (handle POST_api_settings env req w) = Json 200 b"
  shows "settings (snd (handle POST_api_settings env req w)) =
           upsert_all (Object_entries (body_field req ''settings'')) (settings w)"
proof -
  let ?s = "body_field req ''settings''"
  have auth: "is_authenticated req"
    using assms protected_denied [of req post_api_settings env w]
    by (cases "is_authenticated req") (auto split: if_splits)
  then have h: "handle POST_api_settings env req w = post_api_settings env req w"
    by (simp add: protected_authenticated)
  have valid: "truthy ?s" "typeof_object ?s"
    using assms h by (auto simp: post_api_settings_def Let_def split: if_splits)
  have conn: "db_fault env Connect = None"
    using assms h valid by (auto simp: post_api_settings_def Let_def split: option.splits)
  have ok: "db_fault env Begin = None \<and> db_fault env Commit = None \<and>
            (\<forall>(k, v) \<in> set (Object_entries ?s). db_fault env (UpsertSetting k (valueToStore v)) = None)"
  proof (rule ccontr)
    assume n: "\<not> ?thesis"
    have "fst (post_api_settings env req w) = (if db_fault env Rollback = None then save_failed else NoResponse)"
      by (rule post_api_settings_aborted(1) [OF valid conn n])
    with assms h show False by (auto simp: save_failed_def split: if_splits)
  qed
  show ?thesis
    using post_api_settings_committed(2) [OF valid conn, of w] ok h by simp
qed

lemma number_to_string_inj: "0 \<le> i \<Longrightarrow> 0 \<le> j \<Longrightarrow> number_to_string i = number_to_string j \<Longrightarrow> i = j"
proof -
  assume a: "0 \<le> i" "0 \<le> j" "number_to_string i = number_to_string j"
  then have "digits_of_nat (nat i) = digits_of_nat (nat j)" by (simp add: number_to_string_def)
  then have "digits_value (digits_of_nat (nat i)) = digits_value (digits_of_nat (nat j))" by simp
  then show "i = j" using a(1,2) by (simp add: digits_value_digits_of_nat)
qed

lemma distinct_index_keys: "distinct (map (\<lambda>i. number_to_string (int i)) [0 ..< n])"
  by (auto simp: distinct_map inj_on_def dest: number_to_string_inj [rotated 2])

lemma Object_entries_distinct:
  "own_keys_distinct v \<Longrightarrow> distinct (map fst (Object_entries v))"
  by (cases v) (simp_all add: Object_entries_def own_keys_distinct_def distinct_index_keys)

lemma upsert_all_entry:
  assumes "distinct (map fst es)" "(key, v) \<in> set es"
  shows "map_of (upsert_all es t) key = Some (Some (valueToStore v))"
proof -
  let ?st = "rev (map (\<lambda>kv. (fst kv, Some (valueToStore (snd kv)))) es)"
  have d: "distinct (map fst ?st)" using assms(1) by (simp add: rev_map [symmetric] comp_def)
  have "(key, Some (valueToStore v)) \<in> set ?st" using assms(2) by force
  then have "map_of ?st key = Some (Some (valueToStore v))" using d by (rule map_of_is_SomeI [rotated])
  then show ?thesis by (simp add: map_of_upsert_all map_add_def)
qed

text \<open>
  Claim C2. When \<^verbatim>\<open>POST /api/settings\<close> answers 200, every entry \<open>(key, v)\<close> of the
  submitted settings object is in the table afterwards: an object or an array is stored
  as its \<^verbatim>\<open>JSON.stringify\<close> text, and \<^verbatim>\<open>null\<close> or \<^verbatim>\<open>undefined\<close> as the empty string.
\<close>

theorem stored_value_of_entry:
  assumes "fst (handle POST_api_settings env req w) = Json 200 b"
    and "own_keys_distinct (body_field req ''settings'')"
    and "(key, v) \<in> set (Object_entries (body_field req ''settings''))"
  shows "(typeof_object v \<and> v \<noteq> JNull \<longrightarrow>
            map_of (settings (snd (handle POST_api_settings env req w))) key
              = Some (Some (JSON_stringify v)))
       \<and> (v = JNull \<or> v = JUndefined \<longrightarrow>
            map_of (settings (snd (handle POST_api_settings env req w))) key = Some (Some []))"
proof -
  have "map_of (settings (snd (handle POST_api_settings env req w))) key = Some (Some (valueToStore v))"
    using post_api_settings_200 [OF assms(1)] upsert_all_entry [OF Object_entries_distinct [OF assms(2)] assms(3)]
    by simp
  then show ?thesis by (auto simp: valueToStore_def truthy_def typeof_object_def)
qed

theorem stored_value_of_entry_witness:
  "fst (handle POST_api_settings no_faults
          (api_request ''/api/settings'' (Some admin)
             [(''settings'', JObj [(''facilityCards'', JArr [JStr ''Lab'', JNum 2]), (''tagline'', JNull)])])
          empty_world)
     = Json 200 (JObj [(''message'', JStr ''Settings saved successfully'')])
   \<and> map_of (settings (snd (handle POST_api_settings no_faults
          (api_request ''/api/settings'' (Some admin)
             [(''settings'', JObj [(''facilityCards'', JArr [JStr ''Lab'', JNum 2]), (''tagline'', JNull)])])
          empty_world))) ''facilityCards''
     = Some (Some (''['' @ [CHR 0x22] @ ''Lab'' @ [CHR 0x22] @ '',2]''))
   \<and> map_of (settings (snd (handle POST_api_settings no_faults
          (api_request ''/api/settings'' (Some admin)
             [(''settings'', JObj [(''facilityCards'', JArr [JStr ''Lab'', JNum 2]), (''tagline'', JNull)])])
          empty_world))) ''tagline''
     = Some (Some [])"
proof -
  let ?s = "JObj [(''facilityCards'', JArr [JStr ''Lab'', JNum 2]), (''tagline'', JNull)]"
  let ?req = "api_request ''/api/settings'' (Some admin) [(''settings'', ?s)]"
  have f: "body_field ?req ''settings'' = ?s"
    by (simp add: body_field_def api_request_def)
  have h1: "fst (handle POST_api_settings no_faults ?req empty_world)
              = Json 200 (JObj [(''message'', JStr ''Settings saved successfully'')])"
    by code_simp
  have h2: "own_keys_distinct (body_field ?req ''settings'')"
    by (simp add: f own_keys_distinct_def)
  have h3: "(''facilityCards'', JArr [JStr ''Lab'', JNum 2]) \<in> set (Object_entries (body_field ?req ''settings''))"
    and h4: "(''tagline'', JNull) \<in> set (Object_entries (body_field ?req ''settings''))"
    by (simp_all add: f Object_entries_def)
  have s: "JSON_stringify (JArr [JStr ''Lab'', JNum 2]) = ''['' @ [CHR 0x22] @ ''Lab'' @ [CHR 0x22] @ '',2]''"
    by code_simp
  show ?thesis
    using stored_value_of_entry [OF h1 h2 h3] stored_value_of_entry [OF h1 h2 h4] h1 s
    by (simp add: typeof_object_def)
qed

text \<open>
  Claim C3. \<^verbatim>\<open>POST /api/settings\<close> is atomic over its whole map. For an authenticated
  request with a settings object, a connection and a working \<^verbatim>\<open>ROLLBACK\<close>: when
  \<^verbatim>\<open>BEGIN\<close>, every upsert and \<^verbatim>\<open>COMMIT\<close> succeed, the answer is 200 and the table is the
  old one with every entry upserted in order (per name the last entry wins, over the
  old value); when any of them fails, the answer is the 500 error and the table is
  unchanged.
\<close>

theorem bulk_upsert_atomic:
  assumes "is_authenticated req"
    and "truthy (body_field req ''settings'')" "typeof_object (body_field req ''settings'')"
    and "db_fault env Connect = None" "db_fault env Rollback = None"
  shows "(db_fault env Begin = None \<and> db_fault env Commit = None \<and>
          (\<forall>(k, v) \<in> set (Object_entries (body_field req ''settings'')).
             db_fault env (UpsertSetting k (valueToStore v)) = None)
          \<longrightarrow> fst (handle POST_api_settings env req w)
                = Json 200 (JObj [(''message'', JStr ''Settings saved successfully'')])
            \<and> settings (snd (handle POST_api_settings env req w))
                = upsert_all (Object_entries (body_field req ''settings'')) (settings w)
            \<and> map_of (settings (snd (handle POST_api_settings env req w)))
                = map_of (settings w)
                  ++ map_of (rev (map (\<lambda>kv. (fst kv, Some (valueToStore (snd kv))))
                                   (Object_entries (body_field req ''settings'')))))
       \<and> (\<not> (db_fault env Begin = None \<and> db_fault env Commit = None \<and>
             (\<forall>(k, v) \<in> set (Object_entries (body_field req ''settings'')).
                db_fault env (UpsertSetting k (valueToStore v)) = None))
          \<longrightarrow> fst (handle POST_api_settings env req w)
                = Json 500 (JObj [(''error'', JStr ''Failed to save settings.'')])
            \<and> settings (snd (handle POST_api_settings env req w)) = settings w)"
proof -
  have h: "protected post_api_settings env req w = post_api_settings env req w"
    using assms(1) by (rule protected_authenticated)
  show ?thesis
    using post_api_settings_committed [OF assms(2-4), of w]
      post_api_settings_aborted [OF assms(2-4), of w] assms(5)
    by (auto simp add: h map_of_upsert_all save_failed_def)
qed

theorem bulk_upsert_atomic_witness:
  "is_authenticated (api_request ''/api/settings'' (Some admin)
       [(''settings'', JObj [(''a'', JStr ''1''), (''b'', JStr ''2'')])])
   \<and> db_fault refuses_b (UpsertSetting ''b'' ''2'') \<noteq> None
   \<and> fst (handle POST_api_settings refuses_b
            (api_request ''/api/settings'' (Some admin)
               [(''settings'', JObj [(''a'', JStr ''1''), (''b'', JStr ''2'')])])
            (empty_world\<lparr>settings := [(''a'', Some ''0'')]\<rparr>))
       = Json 500 (JObj [(''error'', JStr ''Failed to save settings.'')])
   \<and> settings (snd (handle POST_api_settings refuses_b
            (api_request ''/api/settings'' (Some admin)
               [(''settings'', JObj [(''a'', JStr ''1''), (''b'', JStr ''2'')])])
            (empty_world\<lparr>settings := [(''a'', Some ''0'')]\<rparr>)))
       = [(''a'', Some ''0'')]
   \<and> fst (handle POST_api_settings no_faults
            (api_request ''/api/settings'' (Some admin)
               [(''settings'', JObj [(''a'', JStr ''1''), (''b'', JStr ''2'')])])
            (empty_world\<lparr>settings := [(''a'', Some ''0'')]\<rparr>))
       = Json 200 (JObj [(''message'', JStr ''Settings saved successfully'')])
   \<and> settings (snd (handle POST_api_settings no_faults
            (api_request ''/api/settings'' (Some admin)
               [(''settings'', JObj [(''a'', JStr ''1''), (''b'', JStr ''2'')])])
            (empty_world\<lparr>settings := [(''a'', Some ''0'')]\<rparr>)))
       = [(''a'', Some ''1''), (''b'', Some ''2'')]"
proof -
  let ?s = "JObj [(''a'', JStr ''1''), (''b'', JStr ''2'')]"
  let ?req = "api_request ''/api/settings'' (Some admin) [(''settings'', ?s)]"
  let ?w = "empty_world\<lparr>settings := [(''a'', Some ''0'')]\<rparr>"
  have f: "body_field ?req ''settings'' = ?s"
    by (simp add: body_field_def api_request_def)
  have a: "is_authenticated ?req"
    by (simp add: is_authenticated_def api_request_def admin_def)
  have t: "truthy (body_field ?req ''settings'')" "typeof_object (body_field ?req ''settings'')"
    by (simp_all add: f truthy_def typeof_object_def)
  have e: "Object_entries (body_field ?req ''settings'') = [(''a'', JStr ''1''), (''b'', JStr ''2'')]"
    by (simp add: f Object_entries_def)
  have v: "valueToStore (JStr ''1'') = ''1''" "valueToStore (JStr ''2'') = ''2''"
    by (simp_all add: valueToStore_def typeof_object_def truthy_def)
  have bad: "db_fault refuses_b Connect = None" "db_fault refuses_b Rollback = None"
    "db_fault refuses_b (UpsertSetting ''b'' ''2'') \<noteq> None"
    by (simp_all add: refuses_b_def no_faults_def)
  have good: "db_fault no_faults c = None" for c
    by (simp add: no_faults_def)
  have u: "upsert_all [(''a'', JStr ''1''), (''b'', JStr ''2'')] [(''a'', Some ''0'')]
             = [(''a'', Some ''1''), (''b'', Some ''2'')]"
    by (simp add: upsert_all_def v)
  show ?thesis
    using bulk_upsert_atomic [OF a t bad(1,2), of ?w]
      bulk_upsert_atomic [OF a t good good, of ?w] a bad(3)
    by (simp add: e v good u)
qed

section \<open>Settings: reading back\<close>

lemma map_of_foldl_update:
  "map_of (foldl (\<lambda>obj kv. AList.update (fst kv) (snd kv) obj) acc xs) = map_of acc ++ map_of (rev xs)"
proof (induction xs arbitrary: acc)
  case Nil
  then show ?case by simp
next
  case (Cons x xs)
  show ?case
    by (auto simp add: Cons.IH update_conv' map_add_def fun_eq_iff split: option.splits)
qed





lemma get_api_settings_responds: "fst (get_api_settings env req w) \<noteq> NoResponse"
  by (simp add: get_api_settings_def Let_def split: option.splits)









section \<open>The authentication gate\<close>




section \<open>Deleting a carousel image\<close>

text \<open>
  Claim C10. An authenticated \<^verbatim>\<open>DELETE /api/carousel/:id\<close> whose id is not a number for
  \<^verbatim>\<open>parseInt\<close> is answered 400 and leaves the state as it is: no table changes, and
  the log of calls to the database and the blob store does not grow.
\<close>

theorem invalid_image_id:
  assumes "is_authenticated req" "parseInt10 (params_id req) = None"
  shows "handle DELETE_api_carousel env req w
           = (Json 400 (JObj [(''error'', JStr ''Invalid image ID.'')]), w)"
  using assms
  by (simp add: protected_authenticated delete_api_carousel_def delete_carousel_image_def)

theorem invalid_image_id_witness:
  "is_authenticated ((api_request ''/api/carousel/abc'' (Some admin) [])\<lparr>params_id := ''abc''\<rparr>)
   \<and> parseInt10 ''abc'' = None
   \<and> handle DELETE_api_carousel no_faults
        ((api_request ''/api/carousel/abc'' (Some admin) [])\<lparr>params_id := ''abc''\<rparr>) empty_world
       = (Json 400 (JObj [(''error'', JStr ''Invalid image ID.'')]), empty_world)"
proof -
  let ?req = "(api_request ''/api/carousel/abc'' (Some admin) [])\<lparr>params_id := ''abc''\<rparr>"
  have h1: "is_authenticated ?req" by (simp add: is_authenticated_def api_request_def admin_def)
  have p: "parseInt10 ''abc'' = None" by code_simp
  then have h2: "parseInt10 (params_id ?req) = None" by simp
  show ?thesis using invalid_image_id [OF h1 h2, of no_faults empty_world] h1 p by simp
qed

section \<open>Logout\<close>

text \<open>
  Claim C9. Logout is idempotent, the session store working. With a session, logout
  destroys it in the store, clears the cookie \<^verbatim>\<open>connect.sid\<close> and answers 200; without
  one it answers 200 and changes nothing. A second logout, which arrives with no session
  or with a fresh one that the store does not hold, answers 200 again and leaves the
  tables, the blobs and the session store as they are.
\<close>

theorem logout_idempotent:
  assumes "\<forall>sid. destroy_fault env sid = None"
  shows "(req_session req = Some s \<longrightarrow>
            fst (handle POST_api_logout env req w)
              = JsonClearCookie ''connect.sid'' 200 (JObj [(''message'', JStr ''Logout successful'')])
          \<and> sessionID s \<notin> fst ` set (sessions (snd (handle POST_api_logout env req w))))
       \<and> (req_session req = None \<longrightarrow>
            handle POST_api_logout env req w
              = (Json 200 (JObj [(''message'', JStr ''No active session to log out from.'')]), w))
       \<and> (req_session req2 = None \<longrightarrow>
            handle POST_api_logout env req2 (snd (handle POST_api_logout env req w))
              = (Json 200 (JObj [(''message'', JStr ''No active session to log out from.'')]),
                 snd (handle POST_api_logout env req w)))
       \<and> (req_session req2 = Some s2
            \<and> sessionID s2 \<notin> fst ` set (sessions (snd (handle POST_api_logout env req w))) \<longrightarrow>
            handle POST_api_logout env req2 (snd (handle POST_api_logout env req w))
              = (JsonClearCookie ''connect.sid'' 200 (JObj [(''message'', JStr ''Logout successful'')]),
                 record_call (SessionDestroy (sessionID s2)) (snd (handle POST_api_logout env req w))))"
proof -
  have keep: "filter (\<lambda>entry. fst entry \<noteq> sid) xs = xs" if "sid \<notin> fst ` set xs"
    for sid :: string and xs :: "(string \<times> session) list"
    using that by (induction xs) auto
  show ?thesis
    using assms
    by (auto simp add: post_api_logout_def Let_def keep record_call_def)
qed


theorem logout_idempotent_witness:
  "(\<forall>sid. destroy_fault no_faults sid = None)
   \<and> req_session (api_request ''/api/logout'' (Some admin) []) = Some admin
   \<and> fst (handle POST_api_logout no_faults (api_request ''/api/logout'' (Some admin) []) empty_world)
       = JsonClearCookie ''connect.sid'' 200 (JObj [(''message'', JStr ''Logout successful'')])
   \<and> sessions (snd (handle POST_api_logout no_faults (api_request ''/api/logout'' (Some admin) [])
                       empty_world)) = []
   \<and> req_session (api_request ''/api/logout'' None []) = None
   \<and> handle POST_api_logout no_faults (api_request ''/api/logout'' None [])
        (snd (handle POST_api_logout no_faults (api_request ''/api/logout'' (Some admin) []) empty_world))
       = (Json 200 (JObj [(''message'', JStr ''No active session to log out from.'')]),
          snd (handle POST_api_logout no_faults (api_request ''/api/logout'' (Some admin) []) empty_world))"
proof -
  let ?req = "api_request ''/api/logout'' (Some admin) []"
  let ?req2 = "api_request ''/api/logout'' None []"
  have h: "\<forall>sid. destroy_fault no_faults sid = None" by (simp add: no_faults_def)
  have a: "req_session ?req = Some admin" and b: "req_session ?req2 = None"
    by (simp_all add: api_request_def)
  have c: "sessions (snd (handle POST_api_logout no_faults ?req empty_world)) = []"
    by (simp add: post_api_logout_def api_request_def no_faults_def empty_world_def admin_def)
  show ?thesis
    using logout_idempotent [OF h, of ?req admin empty_world ?req2 admin] h a b c
    by simp
qed

section \<open>The contact form\<close>

lemma contact_setting_record_call [simp]:
  "contact_setting env (record_call c w) name = contact_setting env w name"
  by (simp add: contact_setting_def split: option.splits)





section \<open>Deleting a carousel image: the blob step\<close>

lemma head_and_del_images [simp]:
  "carousel_images (snd (head_and_del env url w)) = carousel_images w"
  "settings (snd (head_and_del env url w)) = settings w"
  by (simp_all add: head_and_del_def Let_def split: option.splits)

lemma blob_cleanup_never_throws: "fst (blob_cleanup env url w) = None"
  by (simp add: blob_cleanup_def split: prod.splits option.splits)

lemma blob_cleanup_images [simp]:
  "carousel_images (snd (blob_cleanup env url w)) = carousel_images w"
  "settings (snd (blob_cleanup env url w)) = settings w"
proof -
  obtain r w1 where h: "head_and_del env url w = (r, w1)" by (cases "head_and_del env url w")
  have "carousel_images w1 = carousel_images w" "settings w1 = settings w"
    using head_and_del_images [of env url w] h by simp_all
  then show "carousel_images (snd (blob_cleanup env url w)) = carousel_images w"
    "settings (snd (blob_cleanup env url w)) = settings w"
    by (simp_all add: blob_cleanup_def h split: option.splits)
qed

lemma blob_cleanup_part_000_images [simp]:
  "carousel_images (snd (blob_cleanup_part_000 env url w)) = carousel_images w"
  "settings (snd (blob_cleanup_part_000 env url w)) = settings w"
proof -
  obtain r w1 where h: "head_and_del env url w = (r, w1)" by (cases "head_and_del env url w")
  have "carousel_images w1 = carousel_images w" "settings w1 = settings w"
    using head_and_del_images [of env url w] h by simp_all
  then show "carousel_images (snd (blob_cleanup_part_000 env url w)) = carousel_images w"
    "settings (snd (blob_cleanup_part_000 env url w)) = settings w"
    by (simp_all add: blob_cleanup_part_000_def h split: option.splits)
qed

lemma head_and_del_failure:
  assumes "head_fault env url = Some e \<or> (head_fault env url = None \<and> del_fault env url = Some e)"
  shows "fst (head_and_del env url w) = Some e"
  using assms by (auto simp: head_and_del_def Let_def)

lemma blob_cleanup_part_000_failure:
  assumes "url \<noteq> []" "prefix ''http'' url"
    and "head_fault env url = Some e \<or> (head_fault env url = None \<and> del_fault env url = Some e)"
  shows "fst (blob_cleanup_part_000 env url w) = (if err_status e = Some 404 then None else Some e)"
proof -
  obtain w1 where h: "head_and_del env url w = (Some e, w1)"
    using head_and_del_failure [OF assms(3), of w] by (cases "head_and_del env url w") auto
  show ?thesis using assms(1,2) by (simp add: blob_cleanup_part_000_def h)
qed

lemma found_row_count:
  assumes "filter (\<lambda>r. image_id r = i) rows = found # others"
  shows "length rows - length (filter (\<lambda>r. image_id r \<noteq> i) rows) \<noteq> 0"
proof -
  have "found \<in> set (filter (\<lambda>r. image_id r = i) rows)" using assms by simp
  then have "found \<in> set rows" "image_id found = i" by auto
  then have "length (filter (\<lambda>r. image_id r \<noteq> i) rows) < length rows"
    by (intro length_filter_less [of found]) auto
  then show ?thesis by simp
qed

text \<open>The \<^verbatim>\<open>try\<close> block when the row is there and the database works.\<close>

lemma delete_try_found:
  assumes "\<forall>c. db_fault env c = None" "int4 i"
    and "filter (\<lambda>r. image_id r = i) (carousel_images w0) = found # others"
  shows "\<exists>w4. carousel_images w4 = filter (\<lambda>r. image_id r \<noteq> i) (carousel_images w0)
           \<and> delete_try cleanup env i w0 =
               (case cleanup env (image_url found) w4 of
                  (Some err, w5) \<Rightarrow> (Inl err, w5)
                | (None, w5) \<Rightarrow>
                    (Inr (Json 200 (JObj [(''message'', JStr ''Carousel image deletion processed.'')])),
                     record_call (Db Commit) w5))"
proof -
  let ?w3 = "record_call (Db (DeleteCarousel i))
               (record_call (Db (SelectImageUrl i)) (record_call (Db Begin) w0))"
  let ?w4 = "?w3\<lparr>carousel_images := filter (\<lambda>r. image_id r \<noteq> i) (carousel_images ?w3)\<rparr>"
  have cnt: "length (carousel_images w0) - length (filter (\<lambda>r. image_id r \<noteq> i) (carousel_images w0)) \<noteq> 0"
    by (rule found_row_count [OF assms(3)])
  have "delete_try cleanup env i w0 =
               (case cleanup env (image_url found) ?w4 of
                  (Some err, w5) \<Rightarrow> (Inl err, w5)
                | (None, w5) \<Rightarrow>
                    (Inr (Json 200 (JObj [(''message'', JStr ''Carousel image deletion processed.'')])),
                     record_call (Db Commit) w5))"
    using assms cnt
    by (simp add: delete_try_def Let_def split: prod.splits option.splits)
  moreover have "carousel_images ?w4 = filter (\<lambda>r. image_id r \<noteq> i) (carousel_images w0)"
    by simp
  ultimately show ?thesis by blast
qed

lemma delete_found_committed:
  assumes "\<forall>c. db_fault env c = None" "int4 i" "parseInt10 (params_id req) = Some i"
    and "filter (\<lambda>r. image_id r = i) (carousel_images w) = found # others"
    and "\<And>w'. fst (cleanup env (image_url found) w') = None"
    and "\<And>w'. carousel_images (snd (cleanup env (image_url found) w')) = carousel_images w'"
  shows "fst (delete_carousel_image cleanup env req w)
           = Json 200 (JObj [(''message'', JStr ''Carousel image deletion processed.'')])"
    and "carousel_images (snd (delete_carousel_image cleanup env req w))
           = filter (\<lambda>r. image_id r \<noteq> i) (carousel_images w)"
proof -
  let ?w0 = "record_call (Db Connect) w"
  have f: "filter (\<lambda>r. image_id r = i) (carousel_images ?w0) = found # others"
    using assms(4) by simp
  obtain w4 where w4: "carousel_images w4 = filter (\<lambda>r. image_id r \<noteq> i) (carousel_images ?w0)"
    and t: "delete_try cleanup env i ?w0 =
               (case cleanup env (image_url found) w4 of
                  (Some err, w5) \<Rightarrow> (Inl err, w5)
                | (None, w5) \<Rightarrow>
                    (Inr (Json 200 (JObj [(''message'', JStr ''Carousel image deletion processed.'')])),
                     record_call (Db Commit) w5))"
    using delete_try_found [OF assms(1,2) f, of cleanup] by blast
  obtain w5 where c: "cleanup env (image_url found) w4 = (None, w5)"
    using assms(5) [of w4] by (cases "cleanup env (image_url found) w4") auto
  have w5: "carousel_images w5 = carousel_images w4"
    using assms(6) [of w4] c by simp
  show "fst (delete_carousel_image cleanup env req w)
           = Json 200 (JObj [(''message'', JStr ''Carousel image deletion processed.'')])"
    using assms(1,3) by (simp add: delete_carousel_image_def Let_def t c)
  show "carousel_images (snd (delete_carousel_image cleanup env req w))
           = filter (\<lambda>r. image_id r \<noteq> i) (carousel_images w)"
    using assms(1,3) by (simp add: delete_carousel_image_def Let_def t c w5 w4)
qed

lemma delete_found_rolled_back:
  assumes "\<forall>c. db_fault env c = None" "int4 i" "parseInt10 (params_id req) = Some i"
    and "filter (\<lambda>r. image_id r = i) (carousel_images w) = found # others"
    and "\<And>w'. fst (cleanup env (image_url found) w') = Some e"
  shows "fst (delete_carousel_image cleanup env req w) = delete_failed e"
    and "carousel_images (snd (delete_carousel_image cleanup env req w)) = carousel_images w"
proof -
  let ?w0 = "record_call (Db Connect) w"
  have f: "filter (\<lambda>r. image_id r = i) (carousel_images ?w0) = found # others"
    using assms(4) by simp
  obtain w4 where t: "delete_try cleanup env i ?w0 =
               (case cleanup env (image_url found) w4 of
                  (Some err, w5) \<Rightarrow> (Inl err, w5)
                | (None, w5) \<Rightarrow>
                    (Inr (Json 200 (JObj [(''message'', JStr ''Carousel image deletion processed.'')])),
                     record_call (Db Commit) w5))"
    using delete_try_found [OF assms(1,2) f, of cleanup] by blast
  obtain w5 where c: "cleanup env (image_url found) w4 = (Some e, w5)"
    using assms(5) [of w4] by (cases "cleanup env (image_url found) w4") auto
  show "fst (delete_carousel_image cleanup env req w) = delete_failed e"
    using assms(1,3) by (simp add: delete_carousel_image_def Let_def t c rollback_response)
  show "carousel_images (snd (delete_carousel_image cleanup env req w)) = carousel_images w"
    using assms(1,3) by (simp add: delete_carousel_image_def Let_def t c rollback_fields)
qed


text \<open>
  Claim C1, as the code has it. The row is there, the database works, and the blob
  step fails with an error \<open>e\<close>, at \<^verbatim>\<open>head\<close> or at \<^verbatim>\<open>del\<close>. The handler of \<^verbatim>\<open>server.js\<close>
  logs every such failure, a 404 or not, and goes on: the transaction commits, the row
  is gone and the answer is 200. The other Postgres variant of the handler
  (\<^verbatim>\<open>part_000\<close>) does the same for a failure with status 404 only; any other failure
  is thrown again, the transaction is rolled back, the row is still in the table and
  the answer is the 500 error with the failure's message.
\<close>

theorem blob_failure_on_delete:
  assumes "is_authenticated req" "parseInt10 (params_id req) = Some i" "int4 i"
    and "\<forall>c. db_fault env c = None"
    and "filter (\<lambda>r. image_id r = i) (carousel_images w) = found # others"
    and "prefix ''http'' (image_url found)"
    and "head_fault env (image_url found) = Some e
         \<or> (head_fault env (image_url found) = None \<and> del_fault env (image_url found) = Some e)"
  shows "fst (handle DELETE_api_carousel env req w)
           = Json 200 (JObj [(''message'', JStr ''Carousel image deletion processed.'')])
       \<and> carousel_images (snd (handle DELETE_api_carousel env req w))
           = filter (\<lambda>r. image_id r \<noteq> i) (carousel_images w)
       \<and> (err_status e = Some 404 \<longrightarrow>
            fst (protected delete_api_carousel_part_000 env req w)
              = Json 200 (JObj [(''message'', JStr ''Carousel image deletion processed.'')])
          \<and> carousel_images (snd (protected delete_api_carousel_part_000 env req w))
              = filter (\<lambda>r. image_id r \<noteq> i) (carousel_images w))
       \<and> (err_status e \<noteq> Some 404 \<longrightarrow>
            fst (protected delete_api_carousel_part_000 env req w)
              = Json 500 (JObj [(''error'', JStr ''Failed to process image deletion.''),
                                (''details'', JStr (err_message e))])
          \<and> carousel_images (snd (protected delete_api_carousel_part_000 env req w))
              = carousel_images w)"
proof -
  have ne: "image_url found \<noteq> []" using assms(6) by auto
  have p0: "protected delete_api_carousel_part_000 env req w
              = delete_carousel_image blob_cleanup_part_000 env req w"
    and p1: "handle DELETE_api_carousel env req w = delete_carousel_image blob_cleanup env req w"
    using assms(1)
    by (simp_all add: protected_authenticated delete_api_carousel_def delete_api_carousel_part_000_def)
  have server: "fst (delete_carousel_image blob_cleanup env req w)
                  = Json 200 (JObj [(''message'', JStr ''Carousel image deletion processed.'')])"
    "carousel_images (snd (delete_carousel_image blob_cleanup env req w))
       = filter (\<lambda>r. image_id r \<noteq> i) (carousel_images w)"
    by (rule delete_found_committed [OF assms(4,3,2,5)]; simp add: blob_cleanup_never_throws)+
  have tolerated: "fst (delete_carousel_image blob_cleanup_part_000 env req w)
                     = Json 200 (JObj [(''message'', JStr ''Carousel image deletion processed.'')])"
    "carousel_images (snd (delete_carousel_image blob_cleanup_part_000 env req w))
       = filter (\<lambda>r. image_id r \<noteq> i) (carousel_images w)"
    if "err_status e = Some 404"
    by (rule delete_found_committed [OF assms(4,3,2,5)];
        simp add: blob_cleanup_part_000_failure [OF ne assms(6,7)] that)+
  have thrown: "fst (delete_carousel_image blob_cleanup_part_000 env req w) = delete_failed e"
    "carousel_images (snd (delete_carousel_image blob_cleanup_part_000 env req w)) = carousel_images w"
    if "err_status e \<noteq> Some 404"
    by (rule delete_found_rolled_back [OF assms(4,3,2,5)];
        simp add: blob_cleanup_part_000_failure [OF ne assms(6,7)] that)+
  show ?thesis
    unfolding p0 p1 using server tolerated thrown by (simp add: delete_failed_def)
qed

theorem blob_failure_on_delete_witness:
  "is_authenticated (delete_request ''1'')
   \<and> parseInt10 (params_id (delete_request ''1'')) = Some 1
   \<and> filter (\<lambda>r. image_id r = 1) (carousel_images one_image) = [image_a]
   \<and> prefix ''http'' (image_url image_a)
   \<and> head_fault blob_down (image_url image_a)
        = Some \<lparr>err_status = Some 500, err_message = ''Internal Server Error''\<rparr>
   \<and> fst (handle DELETE_api_carousel blob_down (delete_request ''1'') one_image)
        = Json 200 (JObj [(''message'', JStr ''Carousel image deletion processed.'')])
   \<and> carousel_images (snd (handle DELETE_api_carousel blob_down (delete_request ''1'') one_image)) = []
   \<and> fst (protected delete_api_carousel_part_000 blob_down (delete_request ''1'') one_image)
        = Json 500 (JObj [(''error'', JStr ''Failed to process image deletion.''),
                          (''details'', JStr ''Internal Server Error'')])
   \<and> carousel_images (snd (protected delete_api_carousel_part_000 blob_down (delete_request ''1'')
                               one_image)) = [image_a]"
proof -
  let ?e = "\<lparr>err_status = Some 500, err_message = ''Internal Server Error''\<rparr>"
  have h1: "is_authenticated (delete_request ''1'')"
    by (simp add: is_authenticated_def delete_request_def api_request_def admin_def)
  have h2: "parseInt10 (params_id (delete_request ''1'')) = Some 1" by code_simp
  have h3: "int4 1" by (simp add: int4_def)
  have h4: "\<forall>c. db_fault blob_down c = None" by (simp add: blob_down_def no_faults_def)
  have rows: "carousel_images one_image = [image_a]" by (simp add: one_image_def)
  have h5: "filter (\<lambda>r. image_id r = 1) (carousel_images one_image) = image_a # []"
    by (simp add: rows image_a_def)
  have h6: "prefix ''http'' (image_url image_a)" by (simp add: image_a_def)
  have h7: "head_fault blob_down (image_url image_a) = Some ?e
            \<or> (head_fault blob_down (image_url image_a) = None
                \<and> del_fault blob_down (image_url image_a) = Some ?e)"
    by (simp add: blob_down_def)
  have g: "filter (\<lambda>r. image_id r \<noteq> 1) (carousel_images one_image) = []"
    by (simp add: rows image_a_def)
  show ?thesis
    using blob_failure_on_delete [OF h1 h2 h3 h4 h5 h6 h7] h1 h2 h5 h6 h7 g rows
    by (simp add: blob_down_def)
qed

text \<open>
  The claim as stated fails on \<^verbatim>\<open>server.js\<close>: the blob store answers \<^verbatim>\<open>head\<close> with a
  500, the request is answered 200 and the row is deleted.
\<close>

theorem blob_failure_aborts_counterexample:
  "head_fault blob_down ''https://blob.example/a.png''
     = Some \<lparr>err_status = Some 500, err_message = ''Internal Server Error''\<rparr>
   \<and> carousel_images one_image = [image_a]
   \<and> image_url image_a = ''https://blob.example/a.png''
   \<and> fst (handle DELETE_api_carousel blob_down (delete_request ''1'') one_image)
        = Json 200 (JObj [(''message'', JStr ''Carousel image deletion processed.'')])
   \<and> carousel_images (snd (handle DELETE_api_carousel blob_down (delete_request ''1'') one_image)) = []"
  by code_simp

section \<open>Carousel ordering\<close>

lemma insert_carousel_row:
  assumes "insert_carousel env u l a f w = (Inr row, w')"
  shows "carousel_images w' = carousel_images w @ [row]"
    and "display_order row = max_display_order (carousel_images w) + 1"
  using assms
  by (auto simp add: insert_carousel_def Let_def split: option.splits if_splits)

lemma insert_carousel_refused:
  "insert_carousel env u l a f w = (Inl e, w') \<Longrightarrow> carousel_images w' = carousel_images w"
  by (auto simp add: insert_carousel_def Let_def split: option.splits if_splits)

lemma insert_carousel_settings:
  "settings (snd (insert_carousel env u l a f w)) = settings w"
  by (auto simp add: insert_carousel_def Let_def split: option.splits if_splits)

lemma post_api_carousel_created:
  assumes "fst (post_api_carousel env req w) = Json 201 b"
  shows "\<exists>row. b = JObj [(''message'', JStr ''Carousel image added successfully.''),
                         (''image'', image_json row)]
           \<and> carousel_images (snd (post_api_carousel env req w)) = carousel_images w @ [row]
           \<and> display_order row = max_display_order (carousel_images w) + 1"
proof -
  obtain f where f: "req_file req = Some f"
    using assms by (cases "req_file req") (auto simp: post_api_carousel_def)
  let ?w1 = "record_call (BlobPut (originalname f)) w"
  obtain url where u: "put_result env (originalname f) = Inr url"
    using assms f
    by (cases "put_result env (originalname f)") (auto simp: post_api_carousel_def Let_def add_failed_def)
  let ?ins = "insert_carousel env url
                (if truthy (body_field req ''linkURL'') then Some (js_to_string (body_field req ''linkURL'')) else None)
                (if truthy (body_field req ''altText'') then js_to_string (body_field req ''altText'') else ''Carousel Image'')
                (originalname f) (?w1\<lparr>blobs := url # blobs ?w1\<rparr>)"
  obtain res w2 where i: "?ins = (res, w2)" by (cases ?ins)
  obtain row where r: "res = Inr row"
    using assms f u i by (cases res) (auto simp: post_api_carousel_def Let_def add_failed_def)
  have "carousel_images w2 = carousel_images w @ [row]"
    "display_order row = max_display_order (carousel_images w) + 1"
    using insert_carousel_row [OF i [unfolded r]] by simp_all
  then show ?thesis
    using assms f u i r by (auto simp: post_api_carousel_def Let_def)
qed

lemma post_api_carousel_keeps:
  "prefix (carousel_images w) (carousel_images (snd (post_api_carousel env req w)))"
proof (cases "req_file req")
  case None
  then show ?thesis by (simp add: post_api_carousel_def)
next
  case (Some f)
  let ?w1 = "record_call (BlobPut (originalname f)) w"
  show ?thesis
  proof (cases "put_result env (originalname f)")
    case (Inl e)
    then show ?thesis using Some by (simp add: post_api_carousel_def Let_def)
  next
    case (Inr url)
    let ?ins = "insert_carousel env url
                (if truthy (body_field req ''linkURL'') then Some (js_to_string (body_field req ''linkURL'')) else None)
                (if truthy (body_field req ''altText'') then js_to_string (body_field req ''altText'') else ''Carousel Image'')
                (originalname f) (?w1\<lparr>blobs := url # blobs ?w1\<rparr>)"
    obtain res w2 where i: "?ins = (res, w2)" by (cases ?ins)
    show ?thesis
    proof (cases res)
      case (Inl e)
      then show ?thesis
        using Some Inr i insert_carousel_refused [OF i [unfolded Inl]]
        by (simp add: post_api_carousel_def Let_def)
    next
      case (Inr row)
      then show ?thesis
        using Some \<open>put_result env (originalname f) = Inr url\<close> i insert_carousel_row(1) [OF i [unfolded Inr]]
        by (simp add: post_api_carousel_def Let_def)
    qed
  qed
qed


lemma get_api_settings_images: "carousel_images (snd (get_api_settings env req w)) = carousel_images w"
  by (simp add: get_api_settings_def Let_def split: option.splits)

lemma post_api_settings_images: "carousel_images (snd (post_api_settings env req w)) = carousel_images w"
proof -
  let ?w1 = "record_call (Db Begin) (record_call (Db Connect) w)"
  let ?es = "Object_entries (body_field req ''settings'')"
  obtain r w2 where u: "upsert_entries env ?es ?w1 = (r, w2)" by (cases "upsert_entries env ?es ?w1")
  have "carousel_images w2 = carousel_images w"
    using upsert_entries_fields(1) [of env ?es ?w1] u by simp
  then show ?thesis
    by (simp add: post_api_settings_def Let_def u rollback_fields split: option.splits)
qed

lemma createUploadHandler_images:
  "carousel_images (snd (createUploadHandler name env req w)) = carousel_images w"
  by (simp add: createUploadHandler_def Let_def split: option.splits sum.splits)

lemma get_api_carousel_images: "carousel_images (snd (get_api_carousel env req w)) = carousel_images w"
  by (simp add: get_api_carousel_def Let_def split: option.splits)

lemma post_api_submit_contact_images:
  "carousel_images (snd (post_api_submit_contact env req w)) = carousel_images w"
  by (simp add: post_api_submit_contact_def Let_def split: option.splits jsval.splits)

lemma post_api_logout_images: "carousel_images (snd (post_api_logout env req w)) = carousel_images w"
  by (simp add: post_api_logout_def Let_def split: option.splits)

lemma protected_images:
  assumes "\<And>w. P (carousel_images (snd (handler env req w))) (carousel_images w)" "\<And>xs. P xs xs"
  shows "P (carousel_images (snd (protected handler env req w))) (carousel_images w)"
  using assms by (simp add: protected_def split: option.splits)

lemma delete_try_rows:
  assumes "\<And>url w. carousel_images (snd (cleanup env url w)) = carousel_images w"
    and "delete_try cleanup env i w0 = (Inr resp, w')"
  shows "(\<exists>b. resp = Json 200 b)
           \<and> carousel_images w' = filter (\<lambda>r. image_id r \<noteq> i) (carousel_images w0)
         \<or> resp = not_found \<and> carousel_images w' = carousel_images w0"
proof (cases "filter (\<lambda>r. image_id r = i) (carousel_images w0)")
  case Nil
  then show ?thesis using assms(2)
    by (auto simp add: delete_try_def Let_def split: option.splits)
next
  case (Cons found others)
  let ?w3 = "record_call (Db (DeleteCarousel i))
               (record_call (Db (SelectImageUrl i)) (record_call (Db Begin) w0))"
  let ?w4 = "?w3\<lparr>carousel_images := filter (\<lambda>r. image_id r \<noteq> i) (carousel_images ?w3)\<rparr>"
  obtain r w5 where c: "cleanup env (image_url found) ?w4 = (r, w5)"
    by (cases "cleanup env (image_url found) ?w4")
  have w5: "carousel_images w5 = filter (\<lambda>r. image_id r \<noteq> i) (carousel_images w0)"
    using assms(1) [of "image_url found" ?w4] c by simp
  show ?thesis using assms(2) Cons c w5
    by (auto simp add: delete_try_def Let_def split: option.splits if_splits)
qed

lemma delete_carousel_image_removes:
  assumes "\<And>url w. carousel_images (snd (cleanup env url w)) = carousel_images w"
    and "fst (delete_carousel_image cleanup env req w) = Json 200 b"
  shows "\<exists>i. parseInt10 (params_id req) = Some i
           \<and> carousel_images (snd (delete_carousel_image cleanup env req w))
               = filter (\<lambda>r. image_id r \<noteq> i) (carousel_images w)"
proof -
  obtain i where i: "parseInt10 (params_id req) = Some i"
    using assms(2) by (cases "parseInt10 (params_id req)") (auto simp: delete_carousel_image_def)
  have conn: "db_fault env Connect = None"
    using assms(2) i by (auto simp: delete_carousel_image_def Let_def split: option.splits)
  let ?w0 = "record_call (Db Connect) w"
  obtain res w' where t: "delete_try cleanup env i ?w0 = (res, w')"
    by (cases "delete_try cleanup env i ?w0")
  have res: "res = Inr (Json 200 b)"
    using assms(2) i conn t
    by (cases res) (auto simp: delete_carousel_image_def Let_def rollback_response delete_failed_def
          split: if_splits)
  have "(\<exists>b'. Json 200 b = Json 200 b')
           \<and> carousel_images w' = filter (\<lambda>r. image_id r \<noteq> i) (carousel_images ?w0)
         \<or> Json 200 b = not_found \<and> carousel_images w' = carousel_images ?w0"
    by (rule delete_try_rows [where cleanup = cleanup and env = env]) (use assms(1) t res in simp_all)
  then have "carousel_images w' = filter (\<lambda>r. image_id r \<noteq> i) (carousel_images w)"
    by (auto simp: not_found_def)
  then show ?thesis
    using i conn t res by (simp add: delete_carousel_image_def Let_def)
qed

lemma delete_carousel_image_subseq:
  assumes "\<And>url w. carousel_images (snd (cleanup env url w)) = carousel_images w"
  shows "subseq (carousel_images (snd (delete_carousel_image cleanup env req w))) (carousel_images w)"
proof (cases "parseInt10 (params_id req)")
  case None
  then show ?thesis by (simp add: delete_carousel_image_def)
next
  case (Some i)
  let ?w0 = "record_call (Db Connect) w"
  obtain res w' where t: "delete_try cleanup env i ?w0 = (res, w')"
    by (cases "delete_try cleanup env i ?w0")
  show ?thesis
  proof (cases "db_fault env Connect")
    case (Some e)
    then show ?thesis using \<open>parseInt10 (params_id req) = Some i\<close>
      by (simp add: delete_carousel_image_def Let_def)
  next
    case None
    show ?thesis
    proof (cases res)
      case (Inl e)
      then show ?thesis using \<open>parseInt10 (params_id req) = Some i\<close> None t
        by (simp add: delete_carousel_image_def Let_def rollback_fields)
    next
      case (Inr resp)
      have "carousel_images w' = filter (\<lambda>r. image_id r \<noteq> i) (carousel_images w)
            \<or> carousel_images w' = carousel_images w"
      proof (cases "filter (\<lambda>r. image_id r = i) (carousel_images ?w0)")
        case Nil
        then show ?thesis using t Inr
          by (auto simp add: delete_try_def Let_def split: option.splits)
      next
        case (Cons found others)
        let ?w3 = "record_call (Db (DeleteCarousel i))
               (record_call (Db (SelectImageUrl i)) (record_call (Db Begin) ?w0))"
        let ?w4 = "?w3\<lparr>carousel_images := filter (\<lambda>r. image_id r \<noteq> i) (carousel_images ?w3)\<rparr>"
        obtain r w5 where c: "cleanup env (image_url found) ?w4 = (r, w5)"
          by (cases "cleanup env (image_url found) ?w4")
        have w5: "carousel_images w5 = filter (\<lambda>r. image_id r \<noteq> i) (carousel_images w)"
          using assms [of "image_url found" ?w4] c by simp
        show ?thesis using t Inr Cons c w5
          by (auto simp add: delete_try_def Let_def split: option.splits if_splits)
      qed
      then show ?thesis using \<open>parseInt10 (params_id req) = Some i\<close> None t Inr
        by (auto simp add: delete_carousel_image_def Let_def)
    qed
  qed
qed


lemma insort_key_snoc: "f x \<le> f a \<Longrightarrow> insort_key f x (ys @ [a]) = insort_key f x ys @ [a]"
  by (induction ys) auto

lemma sort_key_snoc:
  "\<forall>x\<in>set xs. f x \<le> f a \<Longrightarrow> sort_key f (xs @ [a]) = sort_key f xs @ [a]"
  by (induction xs) (simp_all add: insort_key_snoc)

lemma max_display_order_ge: "x \<in> set rows \<Longrightarrow> display_order x \<le> max_display_order rows"
  by (auto simp: max_display_order_def)

lemma list_carousel_snoc:
  assumes "display_order row = max_display_order rows + 1"
  shows "list_carousel (rows @ [row]) = list_carousel rows @ [row]"
proof -
  have "\<forall>x\<in>set rows. (display_order x, image_id x) \<le> (display_order row, image_id row)"
    using max_display_order_ge [of _ rows] assms by (fastforce simp: less_eq_prod_def)
  then show ?thesis unfolding list_carousel_def by (rule sort_key_snoc)
qed

lemma list_carousel_sorted:
  "sorted_wrt (\<lambda>a b. display_order a < display_order b
                     \<or> (display_order a = display_order b \<and> image_id a \<le> image_id b))
     (list_carousel rows)"
proof -
  have "sorted (map (\<lambda>r. (display_order r, image_id r)) (list_carousel rows))"
    unfolding list_carousel_def by (rule sorted_sort_key)
  then have "sorted_wrt (\<lambda>a b. (display_order a, image_id a) \<le> (display_order b, image_id b))
               (list_carousel rows)"
    by (simp add: sorted_map)
  then show ?thesis
    by (rule sorted_wrt_mono_rel [rotated]) (auto simp: less_eq_prod_def)
qed

lemma list_carousel_filter: "list_carousel (filter P rows) = filter P (list_carousel rows)"
  by (simp add: list_carousel_def filter_sort)

lemma handle_keeps_rows:
  "r \<noteq> POST_api_carousel \<Longrightarrow> subseq (carousel_images (snd (handle r env req w))) (carousel_images w)"
proof (cases r)
  case DELETE_api_carousel
  have "subseq (carousel_images (snd (protected (delete_carousel_image blob_cleanup) env req w)))
          (carousel_images w)"
    by (rule protected_images [where P = subseq])
       (simp_all add: delete_carousel_image_subseq)
  then show ?thesis using DELETE_api_carousel by (simp add: delete_api_carousel_def)
next
  case POST_api_settings
  have "subseq (carousel_images (snd (protected post_api_settings env req w))) (carousel_images w)"
    by (rule protected_images [where P = subseq]) (simp_all add: post_api_settings_images)
  then show ?thesis using POST_api_settings by simp
next
  case POST_api_upload_logo
  have "subseq (carousel_images (snd (protected (createUploadHandler ''Logo'') env req w)))
          (carousel_images w)"
    by (rule protected_images [where P = subseq]) (simp_all add: createUploadHandler_images)
  then show ?thesis using POST_api_upload_logo by simp
next
  case POST_api_upload_about_image
  have "subseq (carousel_images (snd (protected (createUploadHandler ''About image'') env req w)))
          (carousel_images w)"
    by (rule protected_images [where P = subseq]) (simp_all add: createUploadHandler_images)
  then show ?thesis using POST_api_upload_about_image by simp
next
  case POST_api_upload_academics_image
  have "subseq (carousel_images (snd (protected (createUploadHandler ''Academics image'') env req w)))
          (carousel_images w)"
    by (rule protected_images [where P = subseq]) (simp_all add: createUploadHandler_images)
  then show ?thesis using POST_api_upload_academics_image by simp
qed (simp_all add: get_api_settings_images get_api_carousel_images post_api_submit_contact_images
       post_api_logout_images)

lemma handle_post_carousel_keeps:
  "prefix (carousel_images w) (carousel_images (snd (handle POST_api_carousel env req w)))"
proof -
  have "prefix (carousel_images w) (carousel_images (snd (protected post_api_carousel env req w)))"
    by (rule protected_images [where P = "\<lambda>after before. prefix before after"])
       (simp_all add: post_api_carousel_keeps)
  then show ?thesis by simp
qed

lemma handle_post_carousel_created:
  assumes "fst (handle POST_api_carousel env req w) = Json 201 b"
  shows "\<exists>row. b = JObj [(''message'', JStr ''Carousel image added successfully.''),
                         (''image'', image_json row)]
           \<and> carousel_images (snd (handle POST_api_carousel env req w)) = carousel_images w @ [row]
           \<and> display_order row = max_display_order (carousel_images w) + 1"
proof -
  have auth: "is_authenticated req"
    using assms protected_denied [of req post_api_carousel env w]
    by (cases "is_authenticated req") (auto split: if_splits)
  then have h: "handle POST_api_carousel env req w = post_api_carousel env req w"
    by (simp add: protected_authenticated)
  show ?thesis using post_api_carousel_created [of env req w b] assms unfolding h by simp
qed

lemma handle_delete_removes:
  assumes "fst (handle DELETE_api_carousel env req w) = Json 200 b"
  shows "\<exists>i. parseInt10 (params_id req) = Some i
           \<and> carousel_images (snd (handle DELETE_api_carousel env req w))
               = filter (\<lambda>r. image_id r \<noteq> i) (carousel_images w)"
proof -
  have auth: "is_authenticated req"
    using assms protected_denied [of req delete_api_carousel env w]
    by (cases "is_authenticated req") (auto split: if_splits)
  then have h: "handle DELETE_api_carousel env req w = delete_carousel_image blob_cleanup env req w"
    by (simp add: protected_authenticated delete_api_carousel_def)
  show ?thesis
    unfolding h
    by (rule delete_carousel_image_removes [where cleanup = blob_cleanup and b = b])
       (use assms h in simp_all)
qed


text \<open>
  Claim C5. The carousel ordering invariant. (1) An insert that is answered 201 appends
  one row whose display order is the maximum of the existing ones plus one, 1 on an
  empty table. (2) No other route changes a row: after any other request the table is
  a subsequence of the table before, and after an insert the table before is a prefix
  of it. (3) The listing holds the rows of the table, ascending in display order, ties
  ascending in id, and it is what \<^verbatim>\<open>GET /api/carousel\<close> returns. (4) Three inserts in
  sequence add their rows A, B, C to the end of the listing, in this order. (5) A delete
  that is answered 200 removes the rows of its id from the listing and leaves the others
  in their order.
\<close>

theorem carousel_ordering:
  "(fst (handle POST_api_carousel env req w) = Json 201 b \<longrightarrow>
      (\<exists>row. b = JObj [(''message'', JStr ''Carousel image added successfully.''),
                       (''image'', image_json row)]
         \<and> carousel_images (snd (handle POST_api_carousel env req w)) = carousel_images w @ [row]
         \<and> display_order row
             = (if carousel_images w = [] then 1
                else Max (set (map display_order (carousel_images w))) + 1)))
   \<and> (r \<noteq> POST_api_carousel \<longrightarrow>
        subseq (carousel_images (snd (handle r env req w))) (carousel_images w))
   \<and> prefix (carousel_images w) (carousel_images (snd (handle POST_api_carousel env req w)))
   \<and> sorted_wrt (\<lambda>a b. display_order a < display_order b
                       \<or> (display_order a = display_order b \<and> image_id a \<le> image_id b))
        (list_carousel rows)
   \<and> mset (list_carousel rows) = mset rows
   \<and> (db_fault env SelectCarousel = None \<longrightarrow>
        fst (handle GET_api_carousel env req w)
          = Json 200 (JArr (map image_json (list_carousel (carousel_images w)))))
   \<and> (serve env [(POST_api_carousel, reqA), (POST_api_carousel, reqB), (POST_api_carousel, reqC)] w
         = ([Json 201 ba, Json 201 bb, Json 201 bc], w3) \<longrightarrow>
        (\<exists>A B C.
           ba = JObj [(''message'', JStr ''Carousel image added successfully.''), (''image'', image_json A)]
         \<and> bb = JObj [(''message'', JStr ''Carousel image added successfully.''), (''image'', image_json B)]
         \<and> bc = JObj [(''message'', JStr ''Carousel image added successfully.''), (''image'', image_json C)]
         \<and> list_carousel (carousel_images w3) = list_carousel (carousel_images w) @ [A, B, C]))
   \<and> (serve env [(DELETE_api_carousel, reqD)] w = ([Json 200 bd], w') \<longrightarrow>
        (\<exists>i. parseInt10 (params_id reqD) = Some i
           \<and> list_carousel (carousel_images w')
               = filter (\<lambda>r. image_id r \<noteq> i) (list_carousel (carousel_images w))))"
proof -
  have one: "fst (handle POST_api_carousel env req w) = Json 201 b \<longrightarrow>
      (\<exists>row. b = JObj [(''message'', JStr ''Carousel image added successfully.''),
                       (''image'', image_json row)]
         \<and> carousel_images (snd (handle POST_api_carousel env req w)) = carousel_images w @ [row]
         \<and> display_order row
             = (if carousel_images w = [] then 1
                else Max (set (map display_order (carousel_images w))) + 1))"
    using handle_post_carousel_created [of env req w b]
    by (auto simp add: max_display_order_def simp del: handle.simps)
  have two: "r \<noteq> POST_api_carousel \<longrightarrow>
        subseq (carousel_images (snd (handle r env req w))) (carousel_images w)"
    using handle_keeps_rows [of r env req w] by blast
  have get: "db_fault env SelectCarousel = None \<longrightarrow>
        fst (handle GET_api_carousel env req w)
          = Json 200 (JArr (map image_json (list_carousel (carousel_images w))))"
    by (simp add: get_api_carousel_def Let_def)
  have three: "\<exists>A B C.
           ba = JObj [(''message'', JStr ''Carousel image added successfully.''), (''image'', image_json A)]
         \<and> bb = JObj [(''message'', JStr ''Carousel image added successfully.''), (''image'', image_json B)]
         \<and> bc = JObj [(''message'', JStr ''Carousel image added successfully.''), (''image'', image_json C)]
         \<and> list_carousel (carousel_images w3) = list_carousel (carousel_images w) @ [A, B, C]"
    if run: "serve env [(POST_api_carousel, reqA), (POST_api_carousel, reqB), (POST_api_carousel, reqC)] w
               = ([Json 201 ba, Json 201 bb, Json 201 bc], w3)"
  proof -
    obtain w1 w2 where s1: "handle POST_api_carousel env reqA w = (Json 201 ba, w1)"
      and s2: "handle POST_api_carousel env reqB w1 = (Json 201 bb, w2)"
      and s3: "handle POST_api_carousel env reqC w2 = (Json 201 bc, w3)"
      using run by (auto simp del: handle.simps split: prod.splits)
    obtain A where A: "ba = JObj [(''message'', JStr ''Carousel image added successfully.''), (''image'', image_json A)]"
      "carousel_images w1 = carousel_images w @ [A]"
      "display_order A = max_display_order (carousel_images w) + 1"
      using handle_post_carousel_created [of env reqA w ba] s1 by (auto simp del: handle.simps)
    obtain B where B: "bb = JObj [(''message'', JStr ''Carousel image added successfully.''), (''image'', image_json B)]"
      "carousel_images w2 = carousel_images w1 @ [B]"
      "display_order B = max_display_order (carousel_images w1) + 1"
      using handle_post_carousel_created [of env reqB w1 bb] s2 by (auto simp del: handle.simps)
    obtain C where C: "bc = JObj [(''message'', JStr ''Carousel image added successfully.''), (''image'', image_json C)]"
      "carousel_images w3 = carousel_images w2 @ [C]"
      "display_order C = max_display_order (carousel_images w2) + 1"
      using handle_post_carousel_created [of env reqC w2 bc] s3 by (auto simp del: handle.simps)
    have "list_carousel (carousel_images w3) = list_carousel (carousel_images w) @ [A, B, C]"
      using list_carousel_snoc [OF A(3)] list_carousel_snoc [OF B(3)] list_carousel_snoc [OF C(3)]
      by (simp add: A(2) B(2) C(2))
    then show ?thesis using A(1) B(1) C(1) by blast
  qed
  have del: "\<exists>i. parseInt10 (params_id reqD) = Some i
           \<and> list_carousel (carousel_images w')
               = filter (\<lambda>r. image_id r \<noteq> i) (list_carousel (carousel_images w))"
    if run: "serve env [(DELETE_api_carousel, reqD)] w = ([Json 200 bd], w')"
  proof -
    have s: "handle DELETE_api_carousel env reqD w = (Json 200 bd, w')"
      using run by (auto simp del: handle.simps split: prod.splits)
    then show ?thesis
      using handle_delete_removes [of env reqD w bd]
      by (auto simp add: list_carousel_filter simp del: handle.simps)
  qed
  have srt: "mset (list_carousel rows) = mset rows" by (simp add: list_carousel_def)
  show ?thesis
    using one two handle_post_carousel_keeps [of w env req] list_carousel_sorted [of rows] srt get
      three del
    by blast
qed


theorem carousel_ordering_witness:
  "serve no_faults three_uploads empty_world
     = ([Json 201 (JObj [(''message'', JStr ''Carousel image added successfully.''),
                         (''image'', image_json image_a)]),
         Json 201 (JObj [(''message'', JStr ''Carousel image added successfully.''),
                         (''image'', image_json image_b)]),
         Json 201 (JObj [(''message'', JStr ''Carousel image added successfully.''),
                         (''image'', image_json image_c)])], three_images)
   \<and> carousel_images empty_world = []
   \<and> display_order image_a = 1
   \<and> list_carousel (carousel_images three_images) = [image_a, image_b, image_c]
   \<and> fst (serve no_faults [(DELETE_api_carousel, delete_request ''2'')] three_images)
       = [Json 200 (JObj [(''message'', JStr ''Carousel image deletion processed.'')])]
   \<and> list_carousel (carousel_images
         (snd (serve no_faults [(DELETE_api_carousel, delete_request ''2'')] three_images)))
       = [image_a, image_c]"
proof -
  let ?created = "\<lambda>row. JObj [(''message'', JStr ''Carousel image added successfully.''),
                              (''image'', image_json row)]"
  let ?del = "serve no_faults [(DELETE_api_carousel, delete_request ''2'')] three_images"
  have f: "fst (serve no_faults three_uploads empty_world)
             = [Json 201 (?created image_a), Json 201 (?created image_b), Json 201 (?created image_c)]"
    by code_simp
  have "serve no_faults three_uploads empty_world
          = (fst (serve no_faults three_uploads empty_world), snd (serve no_faults three_uploads empty_world))"
    by (rule surjective_pairing)
  then have run: "serve no_faults three_uploads empty_world
             = ([Json 201 (?created image_a), Json 201 (?created image_b), Json 201 (?created image_c)],
                three_images)"
    by (simp only: f three_images_def)
  have e: "carousel_images empty_world = []" by (simp add: empty_world_def)
  have inj: "image_json x = image_json y \<Longrightarrow> x = y" for x y
    by (cases x; cases y) (auto simp: image_json_def opt_json_def split: option.splits)
  note parts = carousel_ordering [where env = no_faults and w = empty_world
        and reqA = "upload_request ''a.png''" and reqB = "upload_request ''b.png''"
        and reqC = "upload_request ''c.png''" and ba = "?created image_a" and bb = "?created image_b"
        and bc = "?created image_c" and ?w3.0 = three_images]
  note inserts = parts [THEN conjunct2, THEN conjunct2, THEN conjunct2, THEN conjunct2,
        THEN conjunct2, THEN conjunct2, THEN conjunct1, rule_format,
        OF run [unfolded three_uploads_def]]
  obtain A B C where abc: "?created image_a = ?created A" "?created image_b = ?created B"
      "?created image_c = ?created C"
      "list_carousel (carousel_images three_images) = list_carousel (carousel_images empty_world) @ [A, B, C]"
    using inserts by blast
  have "A = image_a" "B = image_b" "C = image_c"
    using abc(1-3) inj [of image_a A] inj [of image_b B] inj [of image_c C] by simp_all
  then have lst: "list_carousel (carousel_images three_images) = [image_a, image_b, image_c]"
    using abc(4) by (simp add: e list_carousel_def)
  have d1: "fst ?del = [Json 200 (JObj [(''message'', JStr ''Carousel image deletion processed.'')])]"
    by code_simp
  have "?del = (fst ?del, snd ?del)" by (rule surjective_pairing)
  then have d: "?del = ([Json 200 (JObj [(''message'', JStr ''Carousel image deletion processed.'')])],
                        snd ?del)"
    by (simp only: d1)
  have p: "parseInt10 (params_id (delete_request ''2'')) = Some 2" by code_simp
  note parts' = carousel_ordering [where env = no_faults and w = three_images
        and reqD = "delete_request ''2''" and ?w' = "snd ?del"
        and bd = "JObj [(''message'', JStr ''Carousel image deletion processed.'')]"]
  note removal = parts' [THEN conjunct2, THEN conjunct2, THEN conjunct2, THEN conjunct2,
        THEN conjunct2, THEN conjunct2, THEN conjunct2, rule_format, OF d]
  obtain i where i: "parseInt10 (params_id (delete_request ''2'')) = Some i"
      "list_carousel (carousel_images (snd ?del))
         = filter (\<lambda>r. image_id r \<noteq> i) (list_carousel (carousel_images three_images))"
    using removal by blast
  have "i = 2" using i(1) p by simp
  then have after: "list_carousel (carousel_images (snd ?del)) = [image_a, image_c]"
    using i(2) by (simp add: lst image_a_def image_b_def image_c_def)
  have o: "display_order image_a = 1" by (simp add: image_a_def)
  show ?thesis
    by (intro conjI run e o lst d1 after)
qed

section \<open>Setting names stay unique\<close>

text \<open>
  The uniqueness of the names in the \<^verbatim>\<open>settings\<close> table, which the theorems on
  reading the settings assume, holds of the empty table and is kept by every route.
\<close>

lemma upsert_entries_distinct:
  "distinct (map fst (settings w)) \<Longrightarrow>
   distinct (map fst (settings (snd (upsert_entries env es w))))"
  by (induction env es w rule: upsert_entries.induct)
     (simp_all add: Let_def distinct_update split: option.splits)

lemma post_api_settings_distinct:
  assumes "distinct (map fst (settings w))"
  shows "distinct (map fst (settings (snd (post_api_settings env req w))))"
proof -
  let ?w1 = "record_call (Db Begin) (record_call (Db Connect) w)"
  let ?es = "Object_entries (body_field req ''settings'')"
  obtain r w2 where u: "upsert_entries env ?es ?w1 = (r, w2)" by (cases "upsert_entries env ?es ?w1")
  have "distinct (map fst (settings w2))"
    using upsert_entries_distinct [of ?w1 env ?es] u assms by simp
  then show ?thesis
    using assms
    by (simp add: post_api_settings_def Let_def u rollback_fields split: option.splits)
qed

lemma delete_try_settings:
  assumes "\<And>url w. settings (snd (cleanup env url w)) = settings w"
  shows "settings (snd (delete_try cleanup env i w0)) = settings w0"
proof (cases "filter (\<lambda>r. image_id r = i) (carousel_images w0)")
  case Nil
  then show ?thesis by (simp add: delete_try_def Let_def split: option.splits)
next
  case (Cons found others)
  let ?w3 = "record_call (Db (DeleteCarousel i))
               (record_call (Db (SelectImageUrl i)) (record_call (Db Begin) w0))"
  let ?w4 = "?w3\<lparr>carousel_images := filter (\<lambda>r. image_id r \<noteq> i) (carousel_images ?w3)\<rparr>"
  obtain r w5 where c: "cleanup env (image_url found) ?w4 = (r, w5)"
    by (cases "cleanup env (image_url found) ?w4")
  have "settings w5 = settings w0"
    using assms [of "image_url found" ?w4] c by simp
  then show ?thesis using Cons c
    by (simp add: delete_try_def Let_def split: option.splits)
qed

lemma delete_api_carousel_settings:
  "settings (snd (delete_api_carousel env req w)) = settings w"
proof -
  have t: "settings (snd (delete_try blob_cleanup env i w0)) = settings w0" for i w0
    by (rule delete_try_settings) simp
  show ?thesis
  proof (cases "parseInt10 (params_id req)")
    case None
    then show ?thesis by (simp add: delete_api_carousel_def delete_carousel_image_def)
  next
    case (Some i)
    obtain res w' where d: "delete_try blob_cleanup env i (record_call (Db Connect) w) = (res, w')"
      by (cases "delete_try blob_cleanup env i (record_call (Db Connect) w)")
    have "settings w' = settings w" using t [of i "record_call (Db Connect) w"] d by simp
    then show ?thesis using Some d
      by (simp add: delete_api_carousel_def delete_carousel_image_def Let_def rollback_fields
            split: option.splits sum.splits)
  qed
qed

lemma post_api_carousel_settings: "settings (snd (post_api_carousel env req w)) = settings w"
proof (cases "req_file req")
  case None
  then show ?thesis by (simp add: post_api_carousel_def)
next
  case (Some f)
  let ?w1 = "record_call (BlobPut (originalname f)) w"
  show ?thesis
  proof (cases "put_result env (originalname f)")
    case (Inl e)
    then show ?thesis using Some by (simp add: post_api_carousel_def Let_def)
  next
    case (Inr url)
    let ?ins = "insert_carousel env url
                (if truthy (body_field req ''linkURL'') then Some (js_to_string (body_field req ''linkURL'')) else None)
                (if truthy (body_field req ''altText'') then js_to_string (body_field req ''altText'') else ''Carousel Image'')
                (originalname f) (?w1\<lparr>blobs := url # blobs ?w1\<rparr>)"
    obtain res w2 where i: "?ins = (res, w2)" by (cases ?ins)
    have "settings (snd ?ins) = settings (?w1\<lparr>blobs := url # blobs ?w1\<rparr>)"
      by (rule insert_carousel_settings)
    then have "settings w2 = settings w" using i by simp
    then show ?thesis using Some Inr i
      by (cases res) (simp_all add: post_api_carousel_def Let_def)
  qed
qed

lemma handle_settings_distinct:
  assumes "distinct (map fst (settings w))"
  shows "distinct (map fst (settings (snd (handle r env req w))))"
proof -
  have p: "distinct (map fst (settings (snd (protected handler env req w))))"
    if "distinct (map fst (settings (snd (handler env req w))))" for handler
    using that assms by (simp add: protected_def split: option.splits)
  show ?thesis
  proof (cases r)
    case GET_api_settings
    then show ?thesis using assms by (simp add: get_api_settings_def Let_def split: option.splits)
  next
    case POST_api_settings
    then show ?thesis using p [of post_api_settings] post_api_settings_distinct [OF assms] by simp
  next
    case POST_api_upload_logo
    then show ?thesis using assms
      by (auto intro!: p simp: createUploadHandler_def Let_def split: option.splits sum.splits)
  next
    case POST_api_upload_about_image
    then show ?thesis using assms
      by (auto intro!: p simp: createUploadHandler_def Let_def split: option.splits sum.splits)
  next
    case POST_api_upload_academics_image
    then show ?thesis using assms
      by (auto intro!: p simp: createUploadHandler_def Let_def split: option.splits sum.splits)
  next
    case GET_api_carousel
    then show ?thesis using assms by (simp add: get_api_carousel_def Let_def split: option.splits)
  next
    case POST_api_carousel
    then show ?thesis using assms p [of post_api_carousel] by (simp add: post_api_carousel_settings)
  next
    case DELETE_api_carousel
    then show ?thesis using assms p [of delete_api_carousel]
      by (simp add: delete_api_carousel_settings)
  next
    case POST_api_submit_contact
    then show ?thesis using assms
      by (simp add: post_api_submit_contact_def Let_def split: option.splits jsval.splits)
  next
    case POST_api_logout
    then show ?thesis using assms by (simp add: post_api_logout_def Let_def split: option.splits)
  qed
qed

lemma serve_settings_distinct:
  "distinct (map fst (settings w)) \<Longrightarrow> distinct (map fst (settings (snd (serve env reqs w))))"
proof (induction reqs arbitrary: w)
  case Nil
  then show ?case by simp
next
  case (Cons a reqs)
  obtain r req where a: "a = (r, req)" by (cases a)
  obtain resp w1 where h: "handle r env req w = (resp, w1)" by (cases "handle r env req w")
  have "distinct (map fst (settings w1))"
    using handle_settings_distinct [OF Cons.prems, of r env req] h by simp
  from Cons.IH [OF this] show ?case
    using h by (auto simp add: a split: prod.splits simp del: handle.simps)
qed

end
